theory Spec2Isabelle
  imports Complex_Main "HOL-Library.Word" "HOL-Library.AList"
begin

unbundle bit_operations_syntax

section \<open>Data model of the voxel world (World.ts)\<close>

text \<open>
  JavaScript numbers are modelled as \<open>int\<close> where the code uses them as integers
  (block coordinates, chunk coordinates, block ids) and as \<open>real\<close> where it computes
  with fractions (noise values, the viewer's position, \<open>Math.random()\<close>).
  A value that may be \<open>undefined\<close> (a read of a typed array out of range) is an
  \<open>int option\<close>, \<open>None\<close> standing for \<open>undefined\<close>.
\<close>

subsection \<open>Block ids (the constant BLOCK)\<close>

definition AIR :: int where "AIR = 0"
definition GRASS :: int where "GRASS = 1"
definition DIRT :: int where "DIRT = 2"
definition STONE :: int where "STONE = 3"
definition BEDROCK :: int where "BEDROCK = 4"
definition WOOD :: int where "WOOD = 5"
definition LEAVES :: int where "LEAVES = 6"

lemmas BLOCK_defs = AIR_def GRASS_def DIRT_def STONE_def BEDROCK_def WOOD_def LEAVES_def

subsection \<open>Chunk volumes (Uint8Array)\<close>

text \<open>
  A chunk volume is a \<open>Uint8Array\<close>: a list of bytes. A read out of range gives
  \<open>undefined\<close>, a write out of range is ignored, and a written integer is stored
  modulo 256.
\<close>

type_synonym volume = "8 word list"

definition u8_get :: "volume \<Rightarrow> int \<Rightarrow> int option" where
  "u8_get data i =
     (if 0 \<le> i \<and> i < int (length data) then Some (uint (data ! nat i)) else None)"

definition u8_set :: "volume \<Rightarrow> int \<Rightarrow> int \<Rightarrow> volume" where
  "u8_set data i v =
     (if 0 \<le> i \<and> i < int (length data) then data[nat i := word_of_int v] else data)"

definition chunkSize :: int where "chunkSize = 16"

text \<open>\<open>new Uint8Array(chunkSize * chunkSize * chunkSize)\<close>: all zero.\<close>

definition newVolume :: volume where
  "newVolume = replicate (nat (chunkSize * chunkSize * chunkSize)) 0"

definition getBlockIndex :: "int \<Rightarrow> int \<Rightarrow> int \<Rightarrow> int" where
  "getBlockIndex x y z = x + y * chunkSize + z * chunkSize * chunkSize"

subsection \<open>Chunk keys\<close>

text \<open>
  The key of chunk \<open>(cx, cz)\<close> is the string \<open>`${cx},${cz}`\<close>, and
  \<open>checkMemory\<close> reads the two numbers back with \<open>split(',').map(Number)\<close>.
  The model keeps the pair of integers the string encodes.
\<close>

type_synonym key = "int \<times> int"

definition chunkKey :: "int \<Rightarrow> int \<Rightarrow> key" where
  "chunkKey cx cz = (cx, cz)"

subsection \<open>JavaScript \<open>Set\<close> and \<open>Map\<close>, in insertion order\<close>

text \<open>
  A \<open>Set\<close> is the list of its members in insertion order; a \<open>Map\<close> is an
  association list in insertion order: \<open>AList.update\<close> is \<open>Map.set\<close> (a present
  key keeps its place, a new one goes last), \<open>AList.delete\<close> is \<open>Map.delete\<close>
  and \<open>map_of\<close> is \<open>Map.get\<close>.
\<close>

definition set_add :: "'a \<Rightarrow> 'a list \<Rightarrow> 'a list" where
  "set_add k s = (if k \<in> set s then s else s @ [k])"

definition set_delete :: "'a \<Rightarrow> 'a list \<Rightarrow> 'a list" where
  "set_delete k s = removeAll k s"

definition set_has :: "'a list \<Rightarrow> 'a \<Rightarrow> bool" where
  "set_has s k = (k \<in> set s)"

definition map_has :: "('k \<times> 'v) list \<Rightarrow> 'k \<Rightarrow> bool" where
  "map_has m k = (map_of m k \<noteq> None)"

subsection \<open>Meshes\<close>

text \<open>
  The geometry buffers of a chunk mesh, as \<open>generateChunkMesh\<close> fills them, and the
  mesh position. The material and the shadow flags are the same for every mesh and
  are left out.
\<close>

datatype side = Top | Bottom | Front | Back | Right | Left

record mesh =
  positions :: "int list"
  normals :: "int list"
  uvs :: "real list"
  colors :: "real list"
  indices :: "nat list"
  mesh_position :: "int \<times> int \<times> int"

text \<open>One call \<open>addFace(x, y, z, type, side)\<close>.\<close>

type_synonym face = "int \<times> int \<times> int \<times> int option \<times> side"

definition faceColor :: "int option \<Rightarrow> side \<Rightarrow> real list" where
  "faceColor t s =
     (if t = Some STONE then [0.5, 0.5, 0.5]
      else if t = Some BEDROCK then [0.13, 0.13, 0.13]
      else if t = Some DIRT then [0.54, 0.27, 0.07]
      else if t = Some GRASS then (if s = Top then [0.33, 0.6, 0.33] else [0.54, 0.27, 0.07])
      else if t = Some WOOD then [0.4, 0.2, 0.0]
      else if t = Some LEAVES then [0.13, 0.55, 0.13]
      else [0.5, 0.5, 0.5])"

definition facePositions :: "int \<Rightarrow> int \<Rightarrow> int \<Rightarrow> side \<Rightarrow> int list" where
  "facePositions x y z s =
     (let x0 = x; x1 = x + 1; y0 = y; y1 = y + 1; z0 = z; z1 = z + 1 in
      case s of
        Top \<Rightarrow> [x0, y1, z1, x1, y1, z1, x0, y1, z0, x1, y1, z0]
      | Bottom \<Rightarrow> [x0, y0, z0, x1, y0, z0, x0, y0, z1, x1, y0, z1]
      | Front \<Rightarrow> [x0, y0, z1, x1, y0, z1, x0, y1, z1, x1, y1, z1]
      | Back \<Rightarrow> [x1, y0, z0, x0, y0, z0, x1, y1, z0, x0, y1, z0]
      | Right \<Rightarrow> [x1, y0, z1, x1, y0, z0, x1, y1, z1, x1, y1, z0]
      | Left \<Rightarrow> [x0, y0, z0, x0, y0, z1, x0, y1, z0, x0, y1, z1])"

definition faceNormals :: "side \<Rightarrow> int list" where
  "faceNormals s =
     (case s of
        Top \<Rightarrow> [0, 1, 0, 0, 1, 0, 0, 1, 0, 0, 1, 0]
      | Bottom \<Rightarrow> [0, -1, 0, 0, -1, 0, 0, -1, 0, 0, -1, 0]
      | Front \<Rightarrow> [0, 0, 1, 0, 0, 1, 0, 0, 1, 0, 0, 1]
      | Back \<Rightarrow> [0, 0, -1, 0, 0, -1, 0, 0, -1, 0, 0, -1]
      | Right \<Rightarrow> [1, 0, 0, 1, 0, 0, 1, 0, 0, 1, 0, 0]
      | Left \<Rightarrow> [-1, 0, 0, -1, 0, 0, -1, 0, 0, -1, 0, 0])"

definition faceUVs :: "int option \<Rightarrow> real list" where
  "faceUVs t =
     (let uvInset = 0.001;
          u0 = (if t = Some LEAVES then 0.5 + uvInset else 0 + uvInset);
          u1 = (if t = Some LEAVES then 1.0 - uvInset else 0.5 - uvInset)
      in [u0, 0, u1, 0, u0, 1, u1, 1])"

definition emptyMesh :: "int \<times> int \<times> int \<Rightarrow> mesh" where
  "emptyMesh p = \<lparr>positions = [], normals = [], uvs = [], colors = [], indices = [],
     mesh_position = p\<rparr>"

definition addFace :: "face \<Rightarrow> mesh \<Rightarrow> mesh" where
  "addFace f g =
     (case f of (x, y, z, t, s) \<Rightarrow>
        g\<lparr>positions := positions g @ facePositions x y z s,
          normals := normals g @ faceNormals s,
          uvs := uvs g @ faceUVs t,
          colors := colors g @ concat (replicate 4 (faceColor t s))\<rparr>)"

definition isTransparent :: "int option \<Rightarrow> bool" where
  "isTransparent t = (t = Some AIR \<or> t = Some LEAVES)"

definition checkNeighbor :: "volume \<Rightarrow> int \<Rightarrow> int \<Rightarrow> int \<Rightarrow> bool" where
  "checkNeighbor data nx ny nz =
     (if nx < 0 \<or> nx \<ge> chunkSize \<or> ny < 0 \<or> ny \<ge> chunkSize \<or> nz < 0 \<or> nz \<ge> chunkSize
      then True
      else isTransparent (u8_get data (getBlockIndex nx ny nz)))"

text \<open>
  The body of the innermost loop of \<open>generateChunkMesh\<close>: the calls of \<open>addFace\<close>
  for the voxel at local \<open>(x, y, z)\<close>, in the order top, bottom, front, back, right,
  left.
\<close>

definition voxelFaces :: "volume \<Rightarrow> int \<Rightarrow> int \<Rightarrow> int \<Rightarrow> face list" where
  "voxelFaces data x y z =
     (let t = u8_get data (getBlockIndex x y z) in
      if t = Some AIR then []
      else (if checkNeighbor data x (y + 1) z then [(x, y, z, t, Top)] else [])
         @ (if checkNeighbor data x (y - 1) z then [(x, y, z, t, Bottom)] else [])
         @ (if checkNeighbor data x y (z + 1) then [(x, y, z, t, Front)] else [])
         @ (if checkNeighbor data x y (z - 1) then [(x, y, z, t, Back)] else [])
         @ (if checkNeighbor data (x + 1) y z then [(x, y, z, t, Right)] else [])
         @ (if checkNeighbor data (x - 1) y z then [(x, y, z, t, Left)] else []))"

text \<open>
  Every call of \<open>addFace\<close> that \<open>generateChunkMesh\<close> makes, in the order of the
  three nested loops (x outermost, z innermost).
\<close>

definition emittedFaces :: "volume \<Rightarrow> face list" where
  "emittedFaces data =
     concat (map (\<lambda>x. concat (map (\<lambda>y. concat (map (\<lambda>z. voxelFaces data x y z)
       [0..chunkSize - 1])) [0..chunkSize - 1])) [0..chunkSize - 1])"

text \<open>
  \<open>for (let i = 0; i < vertCount; i += 4) indices.push(i, i+1, i+2, i+2, i+1, i+3)\<close>
\<close>

definition quadIndices :: "nat \<Rightarrow> nat list" where
  "quadIndices vertCount =
     concat (map (\<lambda>q. [4 * q, 4 * q + 1, 4 * q + 2, 4 * q + 2, 4 * q + 1, 4 * q + 3])
       [0..<(vertCount + 3) div 4])"

definition generateChunkMesh :: "volume \<Rightarrow> int \<Rightarrow> int \<Rightarrow> mesh" where
  "generateChunkMesh data cx cz =
     (let startX = cx * chunkSize; startZ = cz * chunkSize;
          g = fold addFace (emittedFaces data) (emptyMesh (startX, 0, startZ));
          vertCount = length (positions g) div 3
      in g\<lparr>indices := quadIndices vertCount\<rparr>)"

subsection \<open>The state of a World\<close>

text \<open>
  The fields of the class, with the scene the world draws into: \<open>scene\<close> lists the
  meshes added and not removed, \<open>disposed\<close> the meshes whose geometry and material
  were disposed. The noise texture only feeds the material and is left out.
\<close>

record world =
  chunks :: "(key \<times> mesh) list"
  chunksData :: "(key \<times> volume) list"
  dirtyChunks :: "key list"
  knownChunkKeys :: "key list"
  loadingChunks :: "key list"
  seed :: int
  noise2D :: "real \<Rightarrow> real \<Rightarrow> real"
  scene :: "mesh list"
  disposed :: "mesh list"

text \<open>
  \<open>scene.remove(chunk.mesh); chunk.mesh.geometry.dispose(); chunk.mesh.material.dispose()\<close>
\<close>

definition disposeMesh :: "mesh \<Rightarrow> world \<Rightarrow> world" where
  "disposeMesh m w = w\<lparr>scene := remove1 m (scene w), disposed := disposed w @ [m]\<rparr>"

subsection \<open>Block lookups and mutation\<close>

definition isChunkLoaded :: "world \<Rightarrow> int \<Rightarrow> int \<Rightarrow> bool" where
  "isChunkLoaded w x z =
     (let cx = x div chunkSize; cz = z div chunkSize; k = chunkKey cx cz
      in map_has (chunksData w) k)"

definition hasBlock :: "world \<Rightarrow> int \<Rightarrow> int \<Rightarrow> int \<Rightarrow> bool" where
  "hasBlock w x y z =
     (let cx = x div chunkSize; cz = z div chunkSize; k = chunkKey cx cz in
      case map_of (chunksData w) k of
        None \<Rightarrow> False
      | Some data \<Rightarrow>
          let localX = x - cx * chunkSize; localZ = z - cz * chunkSize; localY = y in
          if localY < 0 \<or> localY \<ge> chunkSize then False
          else u8_get data (getBlockIndex localX localY localZ) \<noteq> Some AIR)"

definition getBlock :: "world \<Rightarrow> int \<Rightarrow> int \<Rightarrow> int \<Rightarrow> int option" where
  "getBlock w x y z =
     (let cx = x div chunkSize; cz = z div chunkSize; k = chunkKey cx cz in
      case map_of (chunksData w) k of
        None \<Rightarrow> Some 0
      | Some data \<Rightarrow>
          let localX = x - cx * chunkSize; localZ = z - cz * chunkSize; localY = y in
          if localY < 0 \<or> localY \<ge> chunkSize then Some 0
          else u8_get data (getBlockIndex localX localY localZ))"

definition setBlock :: "world \<Rightarrow> int \<Rightarrow> int \<Rightarrow> int \<Rightarrow> int \<Rightarrow> world" where
  "setBlock w x y z t =
     (let cx = x div chunkSize; cz = z div chunkSize; k = chunkKey cx cz in
      case map_of (chunksData w) k of
        None \<Rightarrow> w
      | Some data \<Rightarrow>
          let localX = x - cx * chunkSize; localZ = z - cz * chunkSize; localY = y in
          if localY < 0 \<or> localY \<ge> chunkSize then w
          else
            let index = getBlockIndex localX localY localZ;
                data' = u8_set data index t;
                w1 = w\<lparr>chunksData := AList.update k data' (chunksData w),
                       dirtyChunks := set_add k (dirtyChunks w)\<rparr>;
                w2 = (case map_of (chunks w1) k of
                        None \<Rightarrow> w1
                      | Some chunk \<Rightarrow> disposeMesh chunk w1);
                newMesh = generateChunkMesh data' cx cz
            in w2\<lparr>scene := scene w2 @ [newMesh],
                  chunks := AList.update k newMesh (chunks w2)\<rparr>)"

subsection \<open>The seeded noise generator\<close>

text \<open>
  \<open>createNoiseGenerator\<close> seeds a Mulberry32 generator with the world seed and hands
  it to \<open>createNoise2D\<close> of the library simplex-noise. The closure variable \<open>a\<close> is a
  JavaScript number that grows by \<open>0x6D2B79F5\<close> per call (exactly, while it stays below
  \<open>2^53\<close>); the bit operations and \<open>Math.imul\<close> work on its low 32 bits.
  \<open>mulberry32 a\<close> is one call of \<open>random\<close>: the value returned and the new \<open>a\<close>.
\<close>

definition mulberry32 :: "int \<Rightarrow> real \<times> int" where
  "mulberry32 a =
     (let a' = a + 0x6D2B79F5;
          t = (word_of_int a' :: 32 word);
          t = (t XOR drop_bit 15 t) * (t OR 1);
          t = t XOR (t + (t XOR drop_bit 7 t) * (t OR 61))
      in (real (unat (t XOR drop_bit 14 t)) / 4294967296, a'))"

text \<open>The value of the \<open>k\<close>-th call (from 0) of \<open>random\<close> for a seed.\<close>

definition randomStream :: "int \<Rightarrow> nat \<Rightarrow> real" where
  "randomStream s k = fst (mulberry32 (s + int k * 0x6D2B79F5))"

text \<open>
  The library function \<open>createNoise2D\<close> is not code of this repository: it is a
  parameter \<open>lib\<close>, which maps the values its argument \<open>random\<close> returns, in call order,
  to the noise function.
\<close>

type_synonym noiselib = "(nat \<Rightarrow> real) \<Rightarrow> real \<Rightarrow> real \<Rightarrow> real"

definition createNoiseGenerator :: "noiselib \<Rightarrow> int \<Rightarrow> real \<Rightarrow> real \<Rightarrow> real" where
  "createNoiseGenerator lib s = lib (randomStream s)"

text \<open>
  The constructor: \<open>r\<close> is the value \<open>Math.random()\<close> returns, \<open>sc\<close> the objects
  already in the scene.
\<close>

definition newWorld :: "noiselib \<Rightarrow> mesh list \<Rightarrow> real \<Rightarrow> world" where
  "newWorld lib sc r =
     (let s = \<lfloor>r * 2147483647\<rfloor> in
      \<lparr>chunks = [], chunksData = [], dirtyChunks = [], knownChunkKeys = [],
       loadingChunks = [], seed = s, noise2D = createNoiseGenerator lib s,
       scene = sc, disposed = []\<rparr>)"

subsection \<open>Terrain generation\<close>

definition TERRAIN_SCALE :: real where "TERRAIN_SCALE = 50"
definition TERRAIN_HEIGHT :: real where "TERRAIN_HEIGHT = 8"
definition OFFSET :: int where "OFFSET = 4"

definition columnHeight :: "(real \<Rightarrow> real \<Rightarrow> real) \<Rightarrow> int \<Rightarrow> int \<Rightarrow> int" where
  "columnHeight noise worldX worldZ =
     (let noiseValue = noise (real_of_int worldX / TERRAIN_SCALE) (real_of_int worldZ / TERRAIN_SCALE);
          height = \<lfloor>noiseValue * TERRAIN_HEIGHT\<rfloor> + OFFSET;
          height = (if height < 1 then 1 else height);
          height = (if height \<ge> chunkSize then chunkSize - 1 else height)
      in height)"

definition columnType :: "int \<Rightarrow> int \<Rightarrow> int" where
  "columnType height y =
     (if y = 0 then BEDROCK
      else if y = height then GRASS
      else if y \<ge> height - 3 then DIRT
      else STONE)"

text \<open>\<open>for (let y = 0; y <= height; y++) data[getBlockIndex(x, y, z)] = type\<close>\<close>

definition fillColumn :: "volume \<Rightarrow> int \<Rightarrow> int \<Rightarrow> int \<Rightarrow> volume" where
  "fillColumn data x z height =
     fold (\<lambda>y data. u8_set data (getBlockIndex x y z) (columnType height y)) [0..height] data"

text \<open>The first pass of \<open>generateChunk\<close> (terrain), over a given volume.\<close>

definition terrainPass :: "(real \<Rightarrow> real \<Rightarrow> real) \<Rightarrow> int \<Rightarrow> int \<Rightarrow> volume \<Rightarrow> volume" where
  "terrainPass noise cx cz data =
     (let startX = cx * chunkSize; startZ = cz * chunkSize in
      fold (\<lambda>x data.
        fold (\<lambda>z data. fillColumn data x z (columnHeight noise (startX + x) (startZ + z)))
          [0..chunkSize - 1] data)
        [0..chunkSize - 1] data)"

text \<open>
  The second pass draws from \<open>Math.random()\<close>. The values it returns are a parameter
  \<open>rnd\<close> (the \<open>n\<close>-th value drawn is \<open>rnd n\<close>), and the passes thread the number of
  values drawn so far with the volume.
\<close>

definition leafWrite :: "volume \<Rightarrow> int \<Rightarrow> int \<Rightarrow> int \<Rightarrow> volume" where
  "leafWrite data x y z =
     (if x \<ge> 0 \<and> x < chunkSize \<and> y \<ge> 0 \<and> y < chunkSize \<and> z \<ge> 0 \<and> z < chunkSize
      then (let index = getBlockIndex x y z in
            if u8_get data index \<noteq> Some WOOD then u8_set data index LEAVES else data)
      else data)"

definition leafCell ::
  "(nat \<Rightarrow> real) \<Rightarrow> int \<Rightarrow> int \<Rightarrow> int \<Rightarrow> int \<Rightarrow> int \<Rightarrow> int \<Rightarrow> volume \<times> nat \<Rightarrow> volume \<times> nat" where
  "leafCell rnd startX startZ radius y x z s =
     (case s of (data, n) \<Rightarrow>
        let dx = x - startX; dz = z - startZ in
        if \<bar>dx\<bar> = radius \<and> \<bar>dz\<bar> = radius
        then (if rnd n < 0.4 then (data, n + 1) else (leafWrite data x y z, n + 1))
        else (leafWrite data x y z, n))"

definition leafLayer ::
  "(nat \<Rightarrow> real) \<Rightarrow> int \<Rightarrow> int \<Rightarrow> int \<Rightarrow> int \<Rightarrow> int \<Rightarrow> volume \<times> nat \<Rightarrow> volume \<times> nat" where
  "leafLayer rnd startX startY startZ trunkHeight y s =
     (let dy = y - (startY + trunkHeight - 1);
          radius = (if dy = 2 then 1 else if dy = - 1 then 2 else 2)
      in fold (\<lambda>x. fold (\<lambda>z. leafCell rnd startX startZ radius y x z)
                [startZ - radius..startZ + radius])
           [startX - radius..startX + radius] s)"

definition trunkWrite :: "int \<Rightarrow> int \<Rightarrow> int \<Rightarrow> int \<Rightarrow> volume \<Rightarrow> volume" where
  "trunkWrite startX startY startZ y data =
     (let currentY = startY + y in
      if currentY < chunkSize then u8_set data (getBlockIndex startX currentY startZ) WOOD
      else data)"

definition placeTree ::
  "(nat \<Rightarrow> real) \<Rightarrow> volume \<times> nat \<Rightarrow> int \<Rightarrow> int \<Rightarrow> int \<Rightarrow> volume \<times> nat" where
  "placeTree rnd s startX startY startZ =
     (case s of (data, n) \<Rightarrow>
        let trunkHeight = \<lfloor>rnd n * 2\<rfloor> + 4;
            data = fold (trunkWrite startX startY startZ) [0..trunkHeight - 1] data;
            leavesStart = startY + trunkHeight - 2;
            leavesEnd = startY + trunkHeight + 1
        in fold (leafLayer rnd startX startY startZ trunkHeight) [leavesStart..leavesEnd]
             (data, n + 1))"

text \<open>
  \<open>for (let y = chunkSize - 1; y >= 0; y--) if (data[...] !== AIR) { height = y; break; }\<close>
  starting from \<open>height = -1\<close>.
\<close>

definition findSurface :: "volume \<Rightarrow> int \<Rightarrow> int \<Rightarrow> int" where
  "findSurface data x z =
     (case find (\<lambda>y. u8_get data (getBlockIndex x y z) \<noteq> Some AIR) (rev [0..chunkSize - 1]) of
        None \<Rightarrow> - 1
      | Some y \<Rightarrow> y)"

definition treeColumn :: "(nat \<Rightarrow> real) \<Rightarrow> int \<Rightarrow> int \<Rightarrow> volume \<times> nat \<Rightarrow> volume \<times> nat" where
  "treeColumn rnd x z s =
     (case s of (data, n) \<Rightarrow>
        if x < 2 \<or> x \<ge> chunkSize - 2 \<or> z < 2 \<or> z \<ge> chunkSize - 2 then s
        else
          let height = findSurface data x z in
          if height > 0 then
            (if u8_get data (getBlockIndex x height z) = Some GRASS then
               (if rnd n < 0.01 then placeTree rnd (data, n + 1) x (height + 1) z
                else (data, n + 1))
             else s)
          else s)"

definition treePass :: "(nat \<Rightarrow> real) \<Rightarrow> volume \<times> nat \<Rightarrow> volume \<times> nat" where
  "treePass rnd s =
     fold (\<lambda>x. fold (\<lambda>z. treeColumn rnd x z) [0..chunkSize - 1]) [0..chunkSize - 1] s"

text \<open>
  The same pass with a log of the calls \<open>placeTree(data, x, height + 1, z)\<close> it makes:
  the state carries the list of the triples \<open>(x, height + 1, z)\<close>, in call order.
\<close>

definition treeColumnLog ::
  "(nat \<Rightarrow> real) \<Rightarrow> int \<Rightarrow> int \<Rightarrow> (volume \<times> nat) \<times> (int \<times> int \<times> int) list
     \<Rightarrow> (volume \<times> nat) \<times> (int \<times> int \<times> int) list" where
  "treeColumnLog rnd x z p =
     (case p of ((data, n), calls) \<Rightarrow>
        if x < 2 \<or> x \<ge> chunkSize - 2 \<or> z < 2 \<or> z \<ge> chunkSize - 2 then p
        else
          let height = findSurface data x z in
          if height > 0 then
            (if u8_get data (getBlockIndex x height z) = Some GRASS then
               (if rnd n < 0.01
                then (placeTree rnd (data, n + 1) x (height + 1) z, calls @ [(x, height + 1, z)])
                else ((data, n + 1), calls))
             else p)
          else p)"

definition treePassLog ::
  "(nat \<Rightarrow> real) \<Rightarrow> (volume \<times> nat) \<times> (int \<times> int \<times> int) list
     \<Rightarrow> (volume \<times> nat) \<times> (int \<times> int \<times> int) list" where
  "treePassLog rnd p =
     fold (\<lambda>x. fold (\<lambda>z. treeColumnLog rnd x z) [0..chunkSize - 1]) [0..chunkSize - 1] p"

definition treeCalls :: "(nat \<Rightarrow> real) \<Rightarrow> volume \<times> nat \<Rightarrow> (int \<times> int \<times> int) list" where
  "treeCalls rnd s = snd (treePassLog rnd (s, []))"

definition buildChunkMesh :: "world \<Rightarrow> int \<Rightarrow> int \<Rightarrow> volume \<Rightarrow> world" where
  "buildChunkMesh w cx cz data =
     (let k = chunkKey cx cz in
      if map_has (chunks w) k then w
      else let m = generateChunkMesh data cx cz in
           w\<lparr>scene := scene w @ [m], chunks := AList.update k m (chunks w)\<rparr>)"

text \<open>
  \<open>generateChunk(cx, cz)\<close>, with the values of \<open>Math.random()\<close> and the number drawn
  before the call; it returns the new world and the number drawn after it.
\<close>

definition generateChunk :: "(nat \<Rightarrow> real) \<Rightarrow> nat \<Rightarrow> world \<Rightarrow> int \<Rightarrow> int \<Rightarrow> world \<times> nat" where
  "generateChunk rnd n w cx cz =
     (let k = chunkKey cx cz;
          data = newVolume;
          data = terrainPass (noise2D w) cx cz data;
          (data, n') = treePass rnd (data, n);
          w1 = w\<lparr>chunksData := AList.update k data (chunksData w),
                 dirtyChunks := set_add k (dirtyChunks w)\<rparr>
      in (buildChunkMesh w1 cx cz data, n'))"

subsection \<open>The durable store\<close>

text \<open>
  Modelled from the spec: the module \<open>DB.ts\<close> (the object \<open>worldDB\<close>) is not among the
  source files. The spec (sections 4.3 and 6) gives it two tables, \<open>chunks\<close> from chunk
  key to the raw bytes of a volume and one player record holding position, inventory
  and seed, with the operations \<open>get\<close>, \<open>set\<close>, \<open>keys\<close> and \<open>clear\<close>; every operation
  is asynchronous and may fail with a store-unavailable error. A value handed to \<open>set\<close>
  is stored as it is at the call.
\<close>

type_synonym inventory = "(int \<times> int) list"

record meta =
  meta_position :: "real \<times> real \<times> real"
  meta_inventory :: inventory
  meta_seed :: "int option"

record db =
  chunkStore :: "(key \<times> volume) list"
  playerStore :: "meta option"

datatype error = StoreUnavailable

definition db_get_chunk :: "db \<Rightarrow> key \<Rightarrow> volume option" where
  "db_get_chunk d k = map_of (chunkStore d) k"

definition db_set_chunk :: "key \<Rightarrow> volume \<Rightarrow> db \<Rightarrow> db" where
  "db_set_chunk k v d = d\<lparr>chunkStore := AList.update k v (chunkStore d)\<rparr>"

definition db_keys :: "db \<Rightarrow> key list" where
  "db_keys d = map fst (chunkStore d)"

definition db_get_meta :: "db \<Rightarrow> meta option" where
  "db_get_meta d = playerStore d"

definition db_set_meta :: "meta \<Rightarrow> db \<Rightarrow> db" where
  "db_set_meta m d = d\<lparr>playerStore := Some m\<rparr>"


subsection \<open>Persistence methods\<close>

text \<open>
  An \<open>async\<close> method runs in segments: the code between two \<open>await\<close>s runs without
  interruption, and at an \<open>await\<close> other handlers of the same thread may run. The
  segments that touch the world are definitions of their own. \<open>loadWorld\<close> and
  \<open>deleteWorld\<close> touch the world in their last segment only, and the definitions
  below pair that segment with the store operations before it; \<open>saveWorld\<close> touches
  it in two segments and takes what runs in between as arguments. A rejected store
  operation makes the method reject at that \<open>await\<close>.
\<close>

definition loadWorld ::
  "noiselib \<Rightarrow> world \<Rightarrow> db \<Rightarrow> bool
     \<Rightarrow> (error + (real \<times> real \<times> real) option \<times> inventory option) \<times> world" where
  "loadWorld lib w d avail =
     (if \<not> avail then (Inl StoreUnavailable, w)
      else
        let m = db_get_meta d;
            keys = db_keys d;
            w1 = w\<lparr>knownChunkKeys := fold set_add keys (knownChunkKeys w)\<rparr>;
            w2 = (case m of
                    None \<Rightarrow> w1
                  | Some mm \<Rightarrow>
                      (case meta_seed mm of
                         None \<Rightarrow> w1
                       | Some s \<Rightarrow> w1\<lparr>seed := s, noise2D := createNoiseGenerator lib s\<rparr>))
        in (Inr (case m of
                   None \<Rightarrow> (None, None)
                 | Some mm \<Rightarrow> (Some (meta_position mm), Some (meta_inventory mm))), w2))"

text \<open>
  \<open>saveWorld\<close>, second segment: the loop over the dirty set. It returns the world and
  the writes \<open>worldDB.set(key, data, 'chunks')\<close> it issued, in order.
\<close>

definition saveWorld_chunks :: "world \<Rightarrow> world \<times> (key \<times> volume) list" where
  "saveWorld_chunks w =
     fold (\<lambda>k (w, promises).
             case map_of (chunksData w) k of
               None \<Rightarrow> (w, promises)
             | Some data \<Rightarrow>
                 (w\<lparr>knownChunkKeys := set_add k (knownChunkKeys w)\<rparr>, promises @ [(k, data)]))
       (dirtyChunks w) (w, [])"

text \<open>\<open>saveWorld\<close>, last segment, after \<open>await Promise.all(promises)\<close> has succeeded.\<close>

definition saveWorld_clear :: "world \<Rightarrow> world" where
  "saveWorld_clear w = w\<lparr>dirtyChunks := []\<rparr>"

text \<open>
  The store after the writes issued have settled: \<open>ok k\<close> tells whether the write for
  key \<open>k\<close> succeeds.
\<close>

definition settleWrites :: "(key \<Rightarrow> bool) \<Rightarrow> (key \<times> volume) list \<Rightarrow> db \<Rightarrow> db" where
  "settleWrites ok ws d = fold (\<lambda>(k, v) d. if ok k then db_set_chunk k v d else d) ws d"

text \<open>
  \<open>saveWorld(playerData)\<close>, all three segments. The method is suspended twice, at
  \<open>await worldDB.set('player', ...)\<close> and at \<open>await Promise.all(promises)\<close>, and the
  handlers that run meanwhile (a click that calls \<open>setBlock\<close>, a frame that calls
  \<open>update\<close>, the last segment of an earlier \<open>saveWorld\<close> that is still pending) see
  and change the same world: \<open>other1\<close> and \<open>other2\<close> are what they do to it during the
  first and the second suspension (the identity when nothing else runs). \<open>metaOk\<close>
  tells whether the write of the player record succeeds, \<open>ok\<close> which chunk writes
  succeed. The player record is built at the call, before the first suspension. The
  store is the one this call writes to; it is returned with the writes of this call.
\<close>

definition saveWorld ::
  "world \<Rightarrow> db \<Rightarrow> (real \<times> real \<times> real) \<times> inventory \<Rightarrow> bool \<Rightarrow> (key \<Rightarrow> bool)
     \<Rightarrow> (world \<Rightarrow> world) \<Rightarrow> (world \<Rightarrow> world) \<Rightarrow> (error + unit) \<times> world \<times> db" where
  "saveWorld w d playerData metaOk ok other1 other2 =
     (let m = \<lparr>meta_position = fst playerData, meta_inventory = snd playerData,
                meta_seed = Some (seed w)\<rparr>;
          w0 = other1 w
      in if \<not> metaOk then (Inl StoreUnavailable, w0, d)
         else
           let d1 = db_set_meta m d;
               (w1, promises) = saveWorld_chunks w0;
               d2 = settleWrites ok promises d1;
               w2 = other2 w1
           in if list_all (\<lambda>(k, v). ok k) promises
              then (Inr (), saveWorld_clear w2, d2)
              else (Inl StoreUnavailable, w2, d2))"

text \<open>\<open>deleteWorld\<close>, the segment after \<open>await worldDB.clear()\<close>; \<open>r\<close> is \<open>Math.random()\<close>.\<close>

definition deleteWorld_finish :: "noiselib \<Rightarrow> world \<Rightarrow> real \<Rightarrow> world" where
  "deleteWorld_finish lib w r =
     (let w1 = w\<lparr>chunksData := [], dirtyChunks := [], knownChunkKeys := [],
                 loadingChunks := []\<rparr>;
          w2 = fold (\<lambda>(k, chunk) w. disposeMesh chunk w) (chunks w1) w1;
          w3 = w2\<lparr>chunks := []\<rparr>;
          s = \<lfloor>r * 2147483647\<rfloor>
      in w3\<lparr>seed := s, noise2D := createNoiseGenerator lib s\<rparr>)"


subsection \<open>Eviction\<close>

text \<open>The comparator of \<open>checkMemory\<close> orders the entries by this distance, largest first.\<close>

definition chunkDist :: "int \<Rightarrow> int \<Rightarrow> key \<Rightarrow> int" where
  "chunkDist cx cz k = (case k of (ax, az) \<Rightarrow> (ax - cx) ^ 2 + (az - cz) ^ 2)"

text \<open>
  One round of the loop of \<open>checkMemory\<close> for the entry \<open>(key, data)\<close>; the second
  component collects the writes \<open>worldDB.set(key, data, 'chunks')\<close> issued.
\<close>

definition evictOne ::
  "key \<times> volume \<Rightarrow> world \<times> (key \<times> volume) list \<Rightarrow> world \<times> (key \<times> volume) list" where
  "evictOne e s =
     (case (e, s) of ((k, data), (w, writes)) \<Rightarrow>
        let (w1, writes1) =
              (if set_has (dirtyChunks w) k
               then (w\<lparr>dirtyChunks := set_delete k (dirtyChunks w)\<rparr>, writes @ [(k, data)])
               else (w, writes));
            w2 = w1\<lparr>chunksData := AList.delete k (chunksData w1)\<rparr>;
            w3 = (case map_of (chunks w2) k of
                    None \<Rightarrow> w2
                  | Some chunk \<Rightarrow>
                      (disposeMesh chunk w2)\<lparr>chunks := AList.delete k (chunks w2)\<rparr>)
        in (w3, writes1))"

text \<open>
  \<open>Array.prototype.sort\<close> is stable, and so is \<open>sort_key\<close>; sorting by the negated
  distance is sorting with the comparator \<open>distB - distA\<close>.
\<close>

definition checkMemory :: "world \<Rightarrow> real \<times> real \<times> real \<Rightarrow> world \<times> (key \<times> volume) list" where
  "checkMemory w playerPos =
     (if length (chunksData w) \<le> 500 then (w, [])
      else
        let cx = \<lfloor>fst playerPos / real_of_int chunkSize\<rfloor>;
            cz = \<lfloor>snd (snd playerPos) / real_of_int chunkSize\<rfloor>;
            entries = sort_key (\<lambda>e. - chunkDist cx cz (fst e)) (chunksData w)
        in fold evictOne (take 50 entries) (w, []))"

text \<open>The callback \<open>.then(() => knownChunkKeys.add(key))\<close> of a write that succeeded.\<close>

definition checkMemory_written :: "key \<Rightarrow> world \<Rightarrow> world" where
  "checkMemory_written k w = w\<lparr>knownChunkKeys := set_add k (knownChunkKeys w)\<rparr>"

subsection \<open>Streaming\<close>

text \<open>
  \<open>ensureChunk(cx, cz, key)\<close> up to the point where it returns: the new world, the
  number of random values drawn, and the key of the fetch \<open>worldDB.get(key, 'chunks')\<close>
  it issued, if any.
\<close>

definition ensureChunk ::
  "(nat \<Rightarrow> real) \<Rightarrow> nat \<Rightarrow> world \<Rightarrow> int \<Rightarrow> int \<Rightarrow> key \<Rightarrow> world \<times> nat \<times> key option" where
  "ensureChunk rnd n w cx cz k =
     (case map_of (chunksData w) k of
        Some data \<Rightarrow> (buildChunkMesh w cx cz data, n, None)
      | None \<Rightarrow>
          if set_has (knownChunkKeys w) k then
            (if set_has (loadingChunks w) k then (w, n, None)
             else (w\<lparr>loadingChunks := set_add k (loadingChunks w)\<rparr>, n, Some k))
          else (case generateChunk rnd n w cx cz of (w', n') \<Rightarrow> (w', n', None)))"

text \<open>
  The callbacks of the fetch: \<open>then\<close> with the data the store returned (\<open>None\<close> when it
  has none) followed by \<open>finally\<close>, and \<open>finally\<close> alone when the fetch was rejected.
\<close>

definition ensureChunk_then ::
  "(nat \<Rightarrow> real) \<Rightarrow> nat \<Rightarrow> world \<Rightarrow> int \<Rightarrow> int \<Rightarrow> key \<Rightarrow> volume option \<Rightarrow> world \<times> nat" where
  "ensureChunk_then rnd n w cx cz k fetched =
     (let (w1, n') =
            (case fetched of
               Some data \<Rightarrow>
                 (buildChunkMesh (w\<lparr>chunksData := AList.update k data (chunksData w)\<rparr>) cx cz data, n)
             | None \<Rightarrow> generateChunk rnd n w cx cz)
      in (w1\<lparr>loadingChunks := set_delete k (loadingChunks w1)\<rparr>, n'))"

definition ensureChunk_rejected :: "world \<Rightarrow> key \<Rightarrow> world" where
  "ensureChunk_rejected w k = w\<lparr>loadingChunks := set_delete k (loadingChunks w)\<rparr>"

text \<open>
  One round of the second loop of \<open>update\<close>: the mesh of the entry \<open>(key, chunk)\<close> is
  removed from the scene and disposed, and the entry is deleted.
\<close>

definition unloadVisual :: "key \<times> mesh \<Rightarrow> world \<Rightarrow> world" where
  "unloadVisual e w =
     (case e of (k, chunk) \<Rightarrow> (disposeMesh chunk w)\<lparr>chunks := AList.delete k (chunks w)\<rparr>)"

text \<open>
  The body of the first loop of \<open>update\<close> for the chunk \<open>(x, z)\<close>; the state is the
  world, the number of random values drawn and the keys of the fetches issued.
  \<open>ensureChunk\<close> has no \<open>await\<close>, so the call runs to its end inside the loop.
\<close>

definition updateCell ::
  "(nat \<Rightarrow> real) \<Rightarrow> int \<Rightarrow> int \<Rightarrow> world \<times> nat \<times> key list \<Rightarrow> world \<times> nat \<times> key list" where
  "updateCell rnd x z s =
     (case s of (w, n, fs) \<Rightarrow>
        let k = chunkKey x z in
        if \<not> map_has (chunks w) k
        then (case ensureChunk rnd n w x z k of
                (w', n', req) \<Rightarrow> (w', n', fs @ (case req of None \<Rightarrow> [] | Some k' \<Rightarrow> [k'])))
        else (w, n, fs))"

text \<open>
  \<open>update(playerPos)\<close>: \<open>isMobile\<close> is the result of the test on the user agent. It
  returns the new world, the number of random values drawn, the keys of the fetches
  issued and the writes issued by the eviction pass.
\<close>

definition update ::
  "(nat \<Rightarrow> real) \<Rightarrow> nat \<Rightarrow> bool \<Rightarrow> world \<Rightarrow> real \<times> real \<times> real
     \<Rightarrow> world \<times> nat \<times> key list \<times> (key \<times> volume) list" where
  "update rnd n isMobile w playerPos =
     (let radius = (if isMobile then 2 else 3);
          cx = \<lfloor>fst playerPos / real_of_int chunkSize\<rfloor>;
          cz = \<lfloor>snd (snd playerPos) / real_of_int chunkSize\<rfloor>;
          activeChunks = concat (map (\<lambda>x. map (\<lambda>z. chunkKey x z) [cz - radius..cz + radius])
                           [cx - radius..cx + radius]);
          s1 = fold (\<lambda>x. fold (updateCell rnd x) [cz - radius..cz + radius])
                 [cx - radius..cx + radius] (w, n, []);
          w1 = fst s1;
          n1 = fst (snd s1);
          w2 = fold (\<lambda>e w. if \<not> set_has activeChunks (fst e) then unloadVisual e w else w)
                 (chunks w1) w1;
          ev = (if rnd n1 < (if isMobile then 0.05 else 0.01) then checkMemory w2 playerPos
                else (w2, []))
      in (fst ev, n1 + 1, snd (snd s1), snd ev))"

section \<open>Basic facts about sets, indices and typed arrays\<close>

lemma fold_invariant:
  "(\<And>a s. a \<in> set xs \<Longrightarrow> I s \<Longrightarrow> I (g a s)) \<Longrightarrow> I s \<Longrightarrow> I (fold g xs s)"
  by (induction xs arbitrary: s) auto

lemma set_set_add: "set (set_add k s) = insert k (set s)"
  by (auto simp: set_add_def)

lemma local_coord: "x - x div chunkSize * chunkSize = x mod 16"
  by (simp add: chunkSize_def minus_div_mult_eq_mod)

lemma index_range:
  "0 \<le> lx \<Longrightarrow> lx < 16 \<Longrightarrow> 0 \<le> y \<Longrightarrow> y < 16 \<Longrightarrow> 0 \<le> lz \<Longrightarrow> lz < 16
   \<Longrightarrow> 0 \<le> getBlockIndex lx y lz \<and> getBlockIndex lx y lz < 4096"
  by (simp add: getBlockIndex_def chunkSize_def)

lemma u8_get_set_same:
  "0 \<le> i \<Longrightarrow> i < int (length data) \<Longrightarrow> u8_get (u8_set data i v) i = Some (v mod 256)"
  by (simp add: u8_get_def u8_set_def uint_word_of_int take_bit_eq_mod)

lemma u8_get_set_other:
  "j \<noteq> i \<Longrightarrow> u8_get (u8_set data i v) j = u8_get data j"
  by (auto simp: u8_get_def u8_set_def nth_list_update)

lemma length_u8_set: "length (u8_set data i v) = length data"
  by (simp add: u8_set_def)


section \<open>Block lookups and block mutation\<close>

definition world0 :: world where
  "world0 = \<lparr>chunks = [], chunksData = [((0, 0), newVolume)], dirtyChunks = [],
     knownChunkKeys = [], loadingChunks = [], seed = 1, noise2D = (\<lambda>x y. 0),
     scene = [], disposed = []\<rparr>"

text \<open>
  Claim C3. For every world coordinate \<open>(x, y, z)\<close>: if \<open>y < 0\<close> or \<open>y \<ge> 16\<close>, or the
  volume of the containing chunk is not in the RAM cache, then \<open>getBlock\<close> returns the
  empty type 0 and \<open>hasBlock\<close> returns false. Both are functions of the world that
  return a value only: they cannot throw and they return no changed state.
\<close>

theorem getBlock_hasBlock_bounds:
  "y < 0 \<or> chunkSize \<le> y
     \<or> map_of (chunksData w) (chunkKey (x div chunkSize) (z div chunkSize)) = None
   \<Longrightarrow> getBlock w x y z = Some AIR \<and> hasBlock w x y z = False"
  by (auto simp: getBlock_def hasBlock_def Let_def AIR_def split: option.splits)

theorem getBlock_hasBlock_bounds_witness:
  "getBlock world0 3 16 5 = Some AIR \<and> hasBlock world0 3 16 5 = False
   \<and> getBlock world0 3 (-1) 5 = Some AIR \<and> hasBlock world0 3 (-1) 5 = False
   \<and> getBlock world0 16 4 5 = Some AIR \<and> hasBlock world0 16 4 5 = False"
  using getBlock_hasBlock_bounds [of 16 world0 3 5]
    getBlock_hasBlock_bounds [of "-1" world0 3 5]
    getBlock_hasBlock_bounds [of 4 world0 16 5]
  by (simp add: chunkSize_def chunkKey_def world0_def)

lemma setBlock_noop:
  "map_of (chunksData w) (chunkKey (x div chunkSize) (z div chunkSize)) = None
     \<or> y < 0 \<or> chunkSize \<le> y
   \<Longrightarrow> setBlock w x y z t = w"
  by (auto simp: setBlock_def Let_def split: option.splits)

lemma setBlock_write:
  assumes "map_of (chunksData w) (chunkKey (x div chunkSize) (z div chunkSize)) = Some data"
    and "0 \<le> y" and "y < chunkSize"
  shows "setBlock w x y z t =
     (let k = chunkKey (x div chunkSize) (z div chunkSize);
          data' = u8_set data (getBlockIndex (x mod 16) y (z mod 16)) t;
          newMesh = generateChunkMesh data' (x div chunkSize) (z div chunkSize)
      in w\<lparr>chunksData := AList.update k data' (chunksData w),
            dirtyChunks := set_add k (dirtyChunks w),
            scene := (case map_of (chunks w) k of None \<Rightarrow> scene w
                      | Some old \<Rightarrow> remove1 old (scene w)) @ [newMesh],
            disposed := (case map_of (chunks w) k of None \<Rightarrow> disposed w
                         | Some old \<Rightarrow> disposed w @ [old]),
            chunks := AList.update k newMesh (chunks w)\<rparr>)"
  using assms
  by (auto simp: setBlock_def Let_def local_coord disposeMesh_def split: option.splits)

text \<open>
  Claim C4. \<open>setBlock(x, y, z, type)\<close>: if the volume of the target chunk is not cached
  or \<open>y\<close> is outside \<open>[0, 16)\<close>, the world is unchanged. Otherwise, with \<open>data\<close> the
  cached volume, the call writes \<open>type\<close> (as the byte array stores it) at the local
  index \<open>i\<close> of the volume and nowhere else (the byte stored is \<open>type mod 256\<close>, which
  is \<open>type\<close> for a block type id), adds the chunk key to the dirty set,
  removes and disposes the old mesh of the chunk if there is one, adds the mesh built
  from the whole new volume to the scene and makes it the mesh of the chunk; the
  volume and the mesh of every other chunk are unchanged, as are the known keys, the
  keys being loaded and the seed.
\<close>

theorem setBlock_effect:
  "(map_of (chunksData w) (chunkKey (x div chunkSize) (z div chunkSize)) = None
      \<or> y < 0 \<or> chunkSize \<le> y
      \<longrightarrow> setBlock w x y z t = w) \<and>
   (\<forall>data. map_of (chunksData w) (chunkKey (x div chunkSize) (z div chunkSize)) = Some data
        \<and> 0 \<le> y \<and> y < chunkSize \<longrightarrow>
      (let k = chunkKey (x div chunkSize) (z div chunkSize);
           i = getBlockIndex (x mod 16) y (z mod 16);
           data' = u8_set data i t;
           newMesh = generateChunkMesh data' (x div chunkSize) (z div chunkSize);
           w' = setBlock w x y z t
       in 0 \<le> i \<and> i < 4096
        \<and> map_of (chunksData w') k = Some data'
        \<and> (i < int (length data) \<longrightarrow> u8_get data' i = Some (t mod 256))
        \<and> (i < int (length data) \<and> 0 \<le> t \<and> t < 256 \<longrightarrow> u8_get data' i = Some t)
        \<and> (\<forall>j. j \<noteq> i \<longrightarrow> u8_get data' j = u8_get data j)
        \<and> set (dirtyChunks w') = insert k (set (dirtyChunks w))
        \<and> map_of (chunks w') k = Some newMesh
        \<and> scene w' = (case map_of (chunks w) k of None \<Rightarrow> scene w
                       | Some old \<Rightarrow> remove1 old (scene w)) @ [newMesh]
        \<and> disposed w' = (case map_of (chunks w) k of None \<Rightarrow> disposed w
                          | Some old \<Rightarrow> disposed w @ [old])
        \<and> (\<forall>k'. k' \<noteq> k \<longrightarrow> map_of (chunksData w') k' = map_of (chunksData w) k'
                          \<and> map_of (chunks w') k' = map_of (chunks w) k')
        \<and> knownChunkKeys w' = knownChunkKeys w \<and> loadingChunks w' = loadingChunks w
        \<and> seed w' = seed w \<and> noise2D w' = noise2D w))"
proof (intro conjI allI impI)
  assume "map_of (chunksData w) (chunkKey (x div chunkSize) (z div chunkSize)) = None
      \<or> y < 0 \<or> chunkSize \<le> y"
  then show "setBlock w x y z t = w" by (rule setBlock_noop)
next
  fix data
  assume h: "map_of (chunksData w) (chunkKey (x div chunkSize) (z div chunkSize)) = Some data
        \<and> 0 \<le> y \<and> y < chunkSize"
  then have y: "0 \<le> y" "y < 16" by (simp_all add: chunkSize_def)
  have i: "0 \<le> getBlockIndex (x mod 16) y (z mod 16)
      \<and> getBlockIndex (x mod 16) y (z mod 16) < 4096"
    using y by (intro index_range) simp_all
  from h have eq: "setBlock w x y z t =
     (let k = chunkKey (x div chunkSize) (z div chunkSize);
          data' = u8_set data (getBlockIndex (x mod 16) y (z mod 16)) t;
          newMesh = generateChunkMesh data' (x div chunkSize) (z div chunkSize)
      in w\<lparr>chunksData := AList.update k data' (chunksData w),
            dirtyChunks := set_add k (dirtyChunks w),
            scene := (case map_of (chunks w) k of None \<Rightarrow> scene w
                      | Some old \<Rightarrow> remove1 old (scene w)) @ [newMesh],
            disposed := (case map_of (chunks w) k of None \<Rightarrow> disposed w
                         | Some old \<Rightarrow> disposed w @ [old]),
            chunks := AList.update k newMesh (chunks w)\<rparr>)"
    by (intro setBlock_write) simp_all
  show "(let k = chunkKey (x div chunkSize) (z div chunkSize);
           i = getBlockIndex (x mod 16) y (z mod 16);
           data' = u8_set data i t;
           newMesh = generateChunkMesh data' (x div chunkSize) (z div chunkSize);
           w' = setBlock w x y z t
       in 0 \<le> i \<and> i < 4096
        \<and> map_of (chunksData w') k = Some data'
        \<and> (i < int (length data) \<longrightarrow> u8_get data' i = Some (t mod 256))
        \<and> (i < int (length data) \<and> 0 \<le> t \<and> t < 256 \<longrightarrow> u8_get data' i = Some t)
        \<and> (\<forall>j. j \<noteq> i \<longrightarrow> u8_get data' j = u8_get data j)
        \<and> set (dirtyChunks w') = insert k (set (dirtyChunks w))
        \<and> map_of (chunks w') k = Some newMesh
        \<and> scene w' = (case map_of (chunks w) k of None \<Rightarrow> scene w
                       | Some old \<Rightarrow> remove1 old (scene w)) @ [newMesh]
        \<and> disposed w' = (case map_of (chunks w) k of None \<Rightarrow> disposed w
                          | Some old \<Rightarrow> disposed w @ [old])
        \<and> (\<forall>k'. k' \<noteq> k \<longrightarrow> map_of (chunksData w') k' = map_of (chunksData w) k'
                          \<and> map_of (chunks w') k' = map_of (chunks w) k')
        \<and> knownChunkKeys w' = knownChunkKeys w \<and> loadingChunks w' = loadingChunks w
        \<and> seed w' = seed w \<and> noise2D w' = noise2D w)"
    unfolding eq Let_def using i
    by (simp add: update_conv' set_set_add u8_get_set_same u8_get_set_other)
qed

theorem setBlock_effect_witness:
  "setBlock world0 3 16 5 GRASS = world0 \<and>
   map_of (chunksData (setBlock world0 3 4 5 GRASS)) (0, 0) = Some (u8_set newVolume 1347 1) \<and>
   u8_get (u8_set newVolume 1347 1) 1347 = Some 1 \<and>
   set (dirtyChunks (setBlock world0 3 4 5 GRASS)) = {(0, 0)}"
  using setBlock_effect [of world0 3 5 16 GRASS] setBlock_effect [of world0 3 5 4 GRASS]
  by (simp add: chunkSize_def chunkKey_def world0_def newVolume_def getBlockIndex_def
      GRASS_def Let_def)

section \<open>The chunk mesher\<close>

definition in_chunk :: "int \<Rightarrow> int \<Rightarrow> int \<Rightarrow> bool" where
  "in_chunk x y z = (0 \<le> x \<and> x < chunkSize \<and> 0 \<le> y \<and> y < chunkSize \<and> 0 \<le> z \<and> z < chunkSize)"

definition cell :: "volume \<Rightarrow> int \<Rightarrow> int \<Rightarrow> int \<Rightarrow> int option" where
  "cell data x y z = u8_get data (getBlockIndex x y z)"

fun neighbour :: "side \<Rightarrow> int \<times> int \<times> int \<Rightarrow> int \<times> int \<times> int" where
  "neighbour Top (x, y, z) = (x, y + 1, z)"
| "neighbour Bottom (x, y, z) = (x, y - 1, z)"
| "neighbour Front (x, y, z) = (x, y, z + 1)"
| "neighbour Back (x, y, z) = (x, y, z - 1)"
| "neighbour Right (x, y, z) = (x + 1, y, z)"
| "neighbour Left (x, y, z) = (x - 1, y, z)"

definition transparentAt :: "volume \<Rightarrow> int \<times> int \<times> int \<Rightarrow> bool" where
  "transparentAt data p = (case p of (nx, ny, nz) \<Rightarrow> checkNeighbor data nx ny nz)"

lemma set_emittedFaces:
  "set (emittedFaces data) =
     (\<Union>x\<in>{0..15}. \<Union>y\<in>{0..15}. \<Union>z\<in>{0..15}. set (voxelFaces data x y z))"
  by (simp add: emittedFaces_def chunkSize_def)

lemma voxelFaces_mem:
  "(x', y', z', t, s) \<in> set (voxelFaces data x y z) \<longleftrightarrow>
     x' = x \<and> y' = y \<and> z' = z \<and> t = cell data x y z \<and> t \<noteq> Some AIR
     \<and> transparentAt data (neighbour s (x, y, z))"
  by (cases s) (auto simp: voxelFaces_def Let_def cell_def transparentAt_def)

lemma emittedFaces_mem:
  "(x, y, z, t, s) \<in> set (emittedFaces data) \<longleftrightarrow>
     in_chunk x y z \<and> t = cell data x y z \<and> t \<noteq> Some AIR
     \<and> transparentAt data (neighbour s (x, y, z))"
  unfolding set_emittedFaces by (auto simp: voxelFaces_mem in_chunk_def chunkSize_def)

lemma length_emittedFaces:
  "length (emittedFaces data) =
     (\<Sum>(x, y, z)\<in>{0..15} \<times> {0..15} \<times> {0..15}. length (voxelFaces data x y z))"
proof -
  have s: "\<And>f :: int \<Rightarrow> nat. sum_list (map f [0..15]) = sum f {0..15}"
    by (subst sum_list_distinct_conv_sum_set) simp_all
  have "length (emittedFaces data) =
     (\<Sum>x\<in>{0..15}. \<Sum>y\<in>{0..15}. \<Sum>z\<in>{0..15}. length (voxelFaces data x y z))"
    by (simp add: emittedFaces_def chunkSize_def length_concat comp_def s del: upto.simps)
  then show ?thesis by (simp add: sum.cartesian_product)
qed


fun opposite :: "side \<Rightarrow> side" where
  "opposite Top = Bottom"
| "opposite Bottom = Top"
| "opposite Front = Back"
| "opposite Back = Front"
| "opposite Right = Left"
| "opposite Left = Right"

lemma neighbour_opposite: "neighbour (opposite s) (neighbour s p) = p"
  by (cases s; cases p) simp_all

lemma transparentAt_iff:
  "transparentAt data (nx, ny, nz) = (\<not> in_chunk nx ny nz \<or> isTransparent (cell data nx ny nz))"
  by (auto simp: transparentAt_def checkNeighbor_def in_chunk_def cell_def)

lemma length_voxelFaces:
  "length (voxelFaces data x y z) =
     (if cell data x y z = Some AIR then 0
      else (\<Sum>s\<leftarrow>[Top, Bottom, Front, Back, Right, Left].
              if transparentAt data (neighbour s (x, y, z)) then 1 else 0))"
  by (simp add: voxelFaces_def Let_def cell_def transparentAt_def)

lemma isolated_voxelFaces:
  assumes "cell data x y z \<noteq> Some AIR"
    and "\<forall>x' y' z'. in_chunk x' y' z' \<and> (x', y', z') \<noteq> (x, y, z) \<longrightarrow> cell data x' y' z' = Some AIR"
  shows "length (voxelFaces data x y z) = 6"
proof -
  have "transparentAt data (neighbour s (x, y, z))" for s
    using assms(2) by (cases s) (simp_all add: transparentAt_iff isTransparent_def)
  then show ?thesis using assms(1) by (simp add: length_voxelFaces)
qed

lemma pair_voxelFaces:
  assumes "cell data x y z \<noteq> Some AIR"
    and "neighbour s (x, y, z) = (px, py, pz)" and "in_chunk px py pz"
    and "\<forall>x' y' z'. in_chunk x' y' z' \<and> (x', y', z') \<noteq> (x, y, z) \<and> (x', y', z') \<noteq> (px, py, pz)
           \<longrightarrow> cell data x' y' z' = Some AIR"
  shows "length (voxelFaces data x y z) = (if isTransparent (cell data px py pz) then 6 else 5)"
proof -
  have other: "transparentAt data (neighbour s' (x, y, z))" if "s' \<noteq> s" for s'
    using assms(2,4) that
    by (cases s; cases s') (auto simp: transparentAt_iff isTransparent_def)
  have this_one: "transparentAt data (neighbour s (x, y, z)) = isTransparent (cell data px py pz)"
    using assms(2,3) by (simp add: transparentAt_iff)
  show ?thesis
    using assms(1) other [of Top] other [of Bottom] other [of Front] other [of Back]
      other [of Right] other [of Left] this_one
    by (cases s) (simp_all add: length_voxelFaces)
qed

lemma length_emittedFaces_two:
  assumes a: "in_chunk ax ay az" and b: "in_chunk px py pz" and ne: "(ax, ay, az) \<noteq> (px, py, pz)"
    and others: "\<forall>x' y' z'. in_chunk x' y' z' \<and> (x', y', z') \<noteq> (ax, ay, az) \<and> (x', y', z') \<noteq> (px, py, pz)
           \<longrightarrow> cell data x' y' z' = Some AIR"
  shows "length (emittedFaces data) =
     length (voxelFaces data ax ay az) + length (voxelFaces data px py pz)"
proof -
  let ?T = "{0..15} \<times> {0..15} \<times> {0..15} :: (int \<times> int \<times> int) set"
  let ?S = "{(ax, ay, az), (px, py, pz)}"
  let ?g = "\<lambda>(x, y, z). length (voxelFaces data x y z)"
  have sub: "?S \<subseteq> ?T" using a b by (auto simp: in_chunk_def chunkSize_def)
  have zero: "\<forall>p\<in>?T - ?S. ?g p = 0"
  proof
    fix p assume p: "p \<in> ?T - ?S"
    obtain x' y' z' where [simp]: "p = (x', y', z')" by (cases p) auto
    from p have "in_chunk x' y' z'" by (auto simp: in_chunk_def chunkSize_def)
    with p others have "cell data x' y' z' = Some AIR" by simp
    then show "?g p = 0" by (simp add: length_voxelFaces)
  qed
  have "sum ?g ?T = sum ?g ?S"
    by (rule sum.mono_neutral_right) (use sub zero in auto)
  also have "\<dots> = ?g (ax, ay, az) + ?g (px, py, pz)" using ne by simp
  finally show ?thesis by (simp add: length_emittedFaces)
qed

lemma length_emittedFaces_one:
  assumes a: "in_chunk ax ay az"
    and others: "\<forall>x' y' z'. in_chunk x' y' z' \<and> (x', y', z') \<noteq> (ax, ay, az)
           \<longrightarrow> cell data x' y' z' = Some AIR"
  shows "length (emittedFaces data) = length (voxelFaces data ax ay az)"
proof -
  let ?T = "{0..15} \<times> {0..15} \<times> {0..15} :: (int \<times> int \<times> int) set"
  let ?S = "{(ax, ay, az)}"
  let ?g = "\<lambda>(x, y, z). length (voxelFaces data x y z)"
  have sub: "?S \<subseteq> ?T" using a by (auto simp: in_chunk_def chunkSize_def)
  have zero: "\<forall>p\<in>?T - ?S. ?g p = 0"
  proof
    fix p assume p: "p \<in> ?T - ?S"
    obtain x' y' z' where [simp]: "p = (x', y', z')" by (cases p) auto
    from p have "in_chunk x' y' z'" by (auto simp: in_chunk_def chunkSize_def)
    with p others have "cell data x' y' z' = Some AIR" by simp
    then show "?g p = 0" by (simp add: length_voxelFaces)
  qed
  have "sum ?g ?T = sum ?g ?S"
    by (rule sum.mono_neutral_right) (use sub zero in auto)
  then show ?thesis by (simp add: length_emittedFaces)
qed

lemma length_positions_fold:
  "length (positions (fold addFace fs g)) = length (positions g) + 12 * length fs"
  by (induction fs arbitrary: g)
     (auto simp: addFace_def facePositions_def Let_def split: prod.splits side.splits)

lemma length_quadIndices: "length (quadIndices n) = 6 * ((n + 3) div 4)"
  by (simp add: quadIndices_def length_concat comp_def sum_list_triv)

lemma mesh_counts:
  "length (positions (generateChunkMesh data cx cz)) = 3 * (4 * length (emittedFaces data))"
  "length (indices (generateChunkMesh data cx cz)) = 3 * (2 * length (emittedFaces data))"
  by (simp_all add: generateChunkMesh_def Let_def length_positions_fold emptyMesh_def
      length_quadIndices)


definition stoneOne :: volume where
  "stoneOne = u8_set newVolume 0 STONE"

definition leavesPair :: volume where
  "leavesPair = u8_set (u8_set newVolume 0 LEAVES) 1 LEAVES"

definition stonePair :: volume where
  "stonePair = u8_set (u8_set newVolume 0 STONE) 1 STONE"

lemma cell_newVolume:
  assumes "in_chunk x y z"
  shows "cell newVolume x y z = Some AIR"
proof -
  have "0 \<le> getBlockIndex x y z \<and> getBlockIndex x y z < 4096"
    using assms by (intro index_range) (simp_all add: in_chunk_def chunkSize_def)
  then have "nat (getBlockIndex x y z) < 4096" "0 \<le> getBlockIndex x y z" by linarith+
  then show ?thesis
    by (simp add: cell_def u8_get_def newVolume_def chunkSize_def AIR_def)
qed

lemma mod16_offset: "0 \<le> x \<Longrightarrow> x < 16 \<Longrightarrow> (x + 16 * k) mod 16 = (x :: int)"
  by simp

lemma index_inj_arith:
  fixes x y z x' y' z' :: int
  assumes "0 \<le> x" "x < 16" "0 \<le> y" "y < 16" "0 \<le> x'" "x' < 16" "0 \<le> y'" "y' < 16"
    and eq: "x + y * 16 + z * 256 = x' + y' * 16 + z' * 256"
  shows "x = x' \<and> y = y' \<and> z = z'"
proof -
  have e: "x + 16 * (y + 16 * z) = x' + 16 * (y' + 16 * z')"
    using eq by simp
  have "x = (x + 16 * (y + 16 * z)) mod 16"
    by (rule sym, rule mod16_offset) fact+
  also have "\<dots> = (x' + 16 * (y' + 16 * z')) mod 16" by (simp only: e)
  also have "\<dots> = x'" by (rule mod16_offset) fact+
  finally have x: "x = x'" .
  with e have e2: "y + 16 * z = y' + 16 * z'" by simp
  have "y = (y + 16 * z) mod 16"
    by (rule sym, rule mod16_offset) fact+
  also have "\<dots> = (y' + 16 * z') mod 16" by (simp only: e2)
  also have "\<dots> = y'" by (rule mod16_offset) fact+
  finally have y: "y = y'" .
  with e2 have "z = z'" by simp
  with x y show ?thesis by simp
qed

lemma index_eq_iff:
  assumes "in_chunk x y z" and "in_chunk x' y' z'"
  shows "(getBlockIndex x y z = getBlockIndex x' y' z') = (x = x' \<and> y = y' \<and> z = z')"
proof
  assume "getBlockIndex x y z = getBlockIndex x' y' z'"
  then have "x + y * 16 + z * 256 = x' + y' * 16 + z' * 256"
    by (simp add: getBlockIndex_def chunkSize_def)
  then show "x = x' \<and> y = y' \<and> z = z'"
    using assms by (intro index_inj_arith) (simp_all add: in_chunk_def chunkSize_def)
qed simp

lemma cell_u8_set:
  "in_chunk x y z \<Longrightarrow> in_chunk x' y' z' \<Longrightarrow> length data = 4096 \<Longrightarrow>
   cell (u8_set data (getBlockIndex x y z) v) x' y' z' =
     (if (x', y', z') = (x, y, z) then Some (v mod 256) else cell data x' y' z')"
  using index_range [of x y z]
  by (auto simp: cell_def u8_get_set_same u8_get_set_other index_eq_iff in_chunk_def chunkSize_def)

lemma pair_cells:
  "in_chunk x y z \<Longrightarrow>
   cell (u8_set (u8_set newVolume 0 v) 1 v) x y z =
     (if (x, y, z) = (0, 0, 0) \<or> (x, y, z) = (1, 0, 0) then Some (v mod 256) else Some AIR)"
proof -
  assume c: "in_chunk x y z"
  have i0: "getBlockIndex 0 0 0 = 0" and i1: "getBlockIndex 1 0 0 = 1"
    by (simp_all add: getBlockIndex_def)
  have c0: "in_chunk 0 0 0" and c1: "in_chunk 1 0 0" by (simp_all add: in_chunk_def chunkSize_def)
  have l: "length newVolume = 4096" by (simp add: newVolume_def chunkSize_def)
  have "cell (u8_set (u8_set newVolume (getBlockIndex 0 0 0) v) (getBlockIndex 1 0 0) v) x y z =
     (if (x, y, z) = (0, 0, 0) \<or> (x, y, z) = (1, 0, 0) then Some (v mod 256) else Some AIR)"
    using c c0 c1 l by (simp add: cell_u8_set length_u8_set cell_newVolume)
  then show ?thesis by (simp add: i0 i1)
qed

lemma one_cell:
  assumes c: "in_chunk x y z"
  shows "cell (u8_set newVolume 0 v) x y z =
     (if (x, y, z) = (0, 0, 0) then Some (v mod 256) else Some AIR)"
proof -
  have i0: "getBlockIndex 0 0 0 = 0" by (simp add: getBlockIndex_def)
  have c0: "in_chunk 0 0 0" by (simp add: in_chunk_def chunkSize_def)
  have l: "length newVolume = 4096" by (simp add: newVolume_def chunkSize_def)
  have "cell (u8_set newVolume (getBlockIndex 0 0 0) v) x y z =
     (if (x, y, z) = (0, 0, 0) then Some (v mod 256) else Some AIR)"
    using c c0 l by (simp add: cell_u8_set cell_newVolume)
  then show ?thesis by (simp add: i0)
qed

text \<open>
  Claim C6. For every voxel \<open>(x, y, z)\<close> and each of the six directions \<open>s\<close>, the
  mesher calls \<open>addFace(x, y, z, t, s)\<close> if and only if the voxel lies in the chunk,
  \<open>t\<close> is its block type and is not the empty type, and the neighbour in direction
  \<open>s\<close> is outside the local bounds of the chunk or holds the empty type 0 or the
  leaves type.
\<close>

theorem face_emitted_iff:
  "((x, y, z, t, s) \<in> set (emittedFaces data)) =
     (in_chunk x y z \<and> t = cell data x y z \<and> t \<noteq> Some AIR \<and>
      (case neighbour s (x, y, z) of (nx, ny, nz) \<Rightarrow>
         \<not> in_chunk nx ny nz \<or> cell data nx ny nz = Some AIR \<or> cell data nx ny nz = Some LEAVES))"
  by (cases "neighbour s (x, y, z)")
     (simp add: emittedFaces_mem transparentAt_iff isTransparent_def)

theorem face_emitted_iff_witness:
  "(0, 0, 0, Some STONE, Top) \<in> set (emittedFaces stonePair)
   \<and> (0, 0, 0, Some STONE, Left) \<in> set (emittedFaces stonePair)
   \<and> (0, 0, 0, Some STONE, Right) \<notin> set (emittedFaces stonePair)
   \<and> (0, 1, 0, Some AIR, Top) \<notin> set (emittedFaces stonePair)"
proof -
  have c: "in_chunk 0 0 0" "in_chunk 1 0 0" "in_chunk 0 1 0" "in_chunk 0 2 0" "\<not> in_chunk (-1) 0 0"
    by (simp_all add: in_chunk_def chunkSize_def)
  show ?thesis
    using face_emitted_iff [of 0 0 0 "Some STONE" Top stonePair]
      face_emitted_iff [of 0 0 0 "Some STONE" Left stonePair]
      face_emitted_iff [of 0 0 0 "Some STONE" Right stonePair]
      face_emitted_iff [of 0 1 0 "Some AIR" Top stonePair] c
    by (simp add: stonePair_def pair_cells) (simp add: BLOCK_defs)
qed

text \<open>
  Claim C5, amended. A volume whose only non-empty voxel is \<open>(x, y, z)\<close> gives exactly
  6 quads, 24 vertices (72 position numbers) and 12 triangles (36 indices). For two
  adjacent voxels of a chunk that hold the same non-empty type \<open>t\<close>: when \<open>t\<close> is not
  the leaves type, neither of the two faces between them is emitted, and when these
  are the only non-empty voxels of the volume it has \<open>2 * 6 - 2 = 10\<close> quads; when
  \<open>t\<close> is the leaves type, both faces between them are emitted and such a volume has
  12 quads.
\<close>

theorem mesher_counts:
  "(in_chunk x y z \<and> cell data x y z \<noteq> Some AIR
      \<and> (\<forall>x' y' z'. in_chunk x' y' z' \<and> (x', y', z') \<noteq> (x, y, z) \<longrightarrow> cell data x' y' z' = Some AIR)
    \<longrightarrow> length (emittedFaces data) = 6
      \<and> length (positions (generateChunkMesh data cx cz)) = 3 * 24
      \<and> length (indices (generateChunkMesh data cx cz)) = 3 * 12)
   \<and> (in_chunk ax ay az \<and> neighbour s (ax, ay, az) = (px, py, pz) \<and> in_chunk px py pz
      \<and> cell data2 ax ay az = Some t \<and> cell data2 px py pz = Some t \<and> t \<noteq> AIR
    \<longrightarrow> (if t = LEAVES
         then (ax, ay, az, Some t, s) \<in> set (emittedFaces data2)
            \<and> (px, py, pz, Some t, opposite s) \<in> set (emittedFaces data2)
         else (ax, ay, az, Some t, s) \<notin> set (emittedFaces data2)
            \<and> (px, py, pz, Some t, opposite s) \<notin> set (emittedFaces data2))
      \<and> ((\<forall>x' y' z'. in_chunk x' y' z' \<and> (x', y', z') \<noteq> (ax, ay, az) \<and> (x', y', z') \<noteq> (px, py, pz)
             \<longrightarrow> cell data2 x' y' z' = Some AIR)
          \<longrightarrow> length (emittedFaces data2) = (if t = LEAVES then 12 else 2 * 6 - 2)))"
proof (intro conjI impI)
  assume h: "in_chunk x y z \<and> cell data x y z \<noteq> Some AIR
      \<and> (\<forall>x' y' z'. in_chunk x' y' z' \<and> (x', y', z') \<noteq> (x, y, z) \<longrightarrow> cell data x' y' z' = Some AIR)"
  then have n: "length (emittedFaces data) = 6"
    using length_emittedFaces_one [of x y z data] isolated_voxelFaces [of data x y z] by simp
  then show "length (emittedFaces data) = 6"
    and "length (positions (generateChunkMesh data cx cz)) = 3 * 24"
    and "length (indices (generateChunkMesh data cx cz)) = 3 * 12"
    by (simp_all add: mesh_counts)
next
  assume h: "in_chunk ax ay az \<and> neighbour s (ax, ay, az) = (px, py, pz) \<and> in_chunk px py pz
      \<and> cell data2 ax ay az = Some t \<and> cell data2 px py pz = Some t \<and> t \<noteq> AIR"
  then have bk: "neighbour (opposite s) (px, py, pz) = (ax, ay, az)"
    using neighbour_opposite [of s "(ax, ay, az)"] by simp
  show "if t = LEAVES
         then (ax, ay, az, Some t, s) \<in> set (emittedFaces data2)
            \<and> (px, py, pz, Some t, opposite s) \<in> set (emittedFaces data2)
         else (ax, ay, az, Some t, s) \<notin> set (emittedFaces data2)
            \<and> (px, py, pz, Some t, opposite s) \<notin> set (emittedFaces data2)"
    using h bk by (simp add: emittedFaces_mem transparentAt_iff isTransparent_def)
  show "length (emittedFaces data2) = (if t = LEAVES then 12 else 2 * 6 - 2)"
    if others: "\<forall>x' y' z'. in_chunk x' y' z' \<and> (x', y', z') \<noteq> (ax, ay, az) \<and> (x', y', z') \<noteq> (px, py, pz)
             \<longrightarrow> cell data2 x' y' z' = Some AIR"
  proof -
    have others': "\<forall>x' y' z'. in_chunk x' y' z' \<and> (x', y', z') \<noteq> (px, py, pz) \<and> (x', y', z') \<noteq> (ax, ay, az)
           \<longrightarrow> cell data2 x' y' z' = Some AIR"
      using others by blast
    have ne: "(ax, ay, az) \<noteq> (px, py, pz)" using h by (cases s) auto
    have fa: "length (voxelFaces data2 ax ay az) = (if t = LEAVES then 6 else 5)"
      using pair_voxelFaces [of data2 ax ay az s px py pz] h others
      by (simp add: isTransparent_def)
    have fb: "length (voxelFaces data2 px py pz) = (if t = LEAVES then 6 else 5)"
      using pair_voxelFaces [of data2 px py pz "opposite s" ax ay az] h bk others'
      by (simp add: isTransparent_def)
    show ?thesis
      using length_emittedFaces_two [of ax ay az px py pz data2] h ne others fa fb by simp
  qed
qed

theorem mesher_counts_witness:
  "length (emittedFaces stoneOne) = 6
   \<and> length (positions (generateChunkMesh stoneOne 0 0)) = 72
   \<and> length (indices (generateChunkMesh stoneOne 0 0)) = 36
   \<and> (0, 0, 0, Some STONE, Right) \<notin> set (emittedFaces stonePair)
   \<and> (1, 0, 0, Some STONE, Left) \<notin> set (emittedFaces stonePair)
   \<and> length (emittedFaces stonePair) = 10"
proof -
  have c: "in_chunk 0 0 0" "in_chunk 1 0 0" by (simp_all add: in_chunk_def chunkSize_def)
  have one: "cell stoneOne 0 0 0 \<noteq> Some AIR
      \<and> (\<forall>x' y' z'. in_chunk x' y' z' \<and> (x', y', z') \<noteq> (0, 0, 0) \<longrightarrow> cell stoneOne x' y' z' = Some AIR)"
    using c by (simp add: stoneOne_def one_cell) (simp add: BLOCK_defs)
  have two: "cell stonePair 0 0 0 = Some STONE \<and> cell stonePair 1 0 0 = Some STONE \<and> STONE \<noteq> AIR
      \<and> STONE \<noteq> LEAVES
      \<and> (\<forall>x' y' z'. in_chunk x' y' z' \<and> (x', y', z') \<noteq> (0, 0, 0) \<and> (x', y', z') \<noteq> (1, 0, 0)
             \<longrightarrow> cell stonePair x' y' z' = Some AIR)"
    using c by (simp add: stonePair_def pair_cells) (simp add: BLOCK_defs)
  show ?thesis
    using mesher_counts [of 0 0 0 stoneOne 0 0 0 0 0 Right 1 0 0 stonePair STONE] c one two
    by simp
qed

text \<open>
  The claim as stated fails for the leaves type: two adjacent leaves voxels keep both
  faces between them, so the pair has 12 quads, as many as two isolated voxels.
\<close>

theorem leaves_pair_counterexample:
  "cell leavesPair 0 0 0 = Some LEAVES \<and> cell leavesPair 1 0 0 = Some LEAVES
   \<and> neighbour Right (0, 0, 0) = (1, 0, 0)
   \<and> (0, 0, 0, Some LEAVES, Right) \<in> set (emittedFaces leavesPair)
   \<and> (1, 0, 0, Some LEAVES, Left) \<in> set (emittedFaces leavesPair)
   \<and> length (emittedFaces leavesPair) = 12"
proof -
  have c0: "in_chunk 0 0 0" and c1: "in_chunk 1 0 0" by (simp_all add: in_chunk_def chunkSize_def)
  have a: "cell leavesPair 0 0 0 = Some LEAVES" and b: "cell leavesPair 1 0 0 = Some LEAVES"
    using c0 c1 by (simp_all add: leavesPair_def pair_cells) (simp_all add: LEAVES_def)
  have others: "\<forall>x' y' z'. in_chunk x' y' z' \<and> (x', y', z') \<noteq> (0, 0, 0) \<and> (x', y', z') \<noteq> (1, 0, 0)
           \<longrightarrow> cell leavesPair x' y' z' = Some AIR"
    by (auto simp: leavesPair_def pair_cells)
  have others': "\<forall>x' y' z'. in_chunk x' y' z' \<and> (x', y', z') \<noteq> (1, 0, 0) \<and> (x', y', z') \<noteq> (0, 0, 0)
           \<longrightarrow> cell leavesPair x' y' z' = Some AIR"
    using others by blast
  have fa: "length (voxelFaces leavesPair 0 0 0) = 6"
    using pair_voxelFaces [of leavesPair 0 0 0 Right 1 0 0] a b c1 others
    by (simp add: isTransparent_def AIR_def LEAVES_def)
  have fb: "length (voxelFaces leavesPair 1 0 0) = 6"
    using pair_voxelFaces [of leavesPair 1 0 0 Left 0 0 0] a b c0 others'
    by (simp add: isTransparent_def AIR_def LEAVES_def)
  have n: "length (emittedFaces leavesPair) = 12"
    using length_emittedFaces_two [of 0 0 0 1 0 0 leavesPair] c0 c1 others fa fb by simp
  have m1: "(0, 0, 0, Some LEAVES, Right) \<in> set (emittedFaces leavesPair)"
    using a b c0 c1 by (simp add: emittedFaces_mem transparentAt_iff isTransparent_def AIR_def LEAVES_def)
  have m2: "(1, 0, 0, Some LEAVES, Left) \<in> set (emittedFaces leavesPair)"
    using a b c0 c1 by (simp add: emittedFaces_mem transparentAt_iff isTransparent_def AIR_def LEAVES_def)
  show ?thesis using a b n m1 m2 by simp
qed

section \<open>The dirty set and the cache\<close>

definition dirtyCached :: "world \<Rightarrow> bool" where
  "dirtyCached w = (set (dirtyChunks w) \<subseteq> dom (map_of (chunksData w)))"

inductive reachable :: "noiselib \<Rightarrow> world \<Rightarrow> bool" for lib :: noiselib where
  r_new: "reachable lib (newWorld lib sc r)"
| r_load: "reachable lib w \<Longrightarrow> reachable lib (snd (loadWorld lib w d avail))"
| r_save_chunks: "reachable lib w \<Longrightarrow> reachable lib (fst (saveWorld_chunks w))"
| r_save_clear: "reachable lib w \<Longrightarrow> reachable lib (saveWorld_clear w)"
| r_delete: "reachable lib w \<Longrightarrow> reachable lib (deleteWorld_finish lib w r)"
| r_setBlock: "reachable lib w \<Longrightarrow> reachable lib (setBlock w x y z t)"
| r_generate: "reachable lib w \<Longrightarrow> reachable lib (fst (generateChunk rnd n w cx cz))"
| r_ensure: "reachable lib w \<Longrightarrow> reachable lib (fst (ensureChunk rnd n w cx cz k))"
| r_ensure_then:
    "reachable lib w \<Longrightarrow> reachable lib (fst (ensureChunk_then rnd n w cx cz k fetched))"
| r_ensure_rejected: "reachable lib w \<Longrightarrow> reachable lib (ensureChunk_rejected w k)"
| r_unload: "reachable lib w \<Longrightarrow> reachable lib (unloadVisual e w)"
| r_evict: "reachable lib w \<Longrightarrow> reachable lib (fst (checkMemory w p))"
| r_evict_written: "reachable lib w \<Longrightarrow> reachable lib (checkMemory_written k w)"

lemma disposeMesh_fields [simp]:
  "chunksData (disposeMesh m w) = chunksData w"
  "dirtyChunks (disposeMesh m w) = dirtyChunks w"
  "knownChunkKeys (disposeMesh m w) = knownChunkKeys w"
  "loadingChunks (disposeMesh m w) = loadingChunks w"
  "chunks (disposeMesh m w) = chunks w"
  "seed (disposeMesh m w) = seed w"
  "noise2D (disposeMesh m w) = noise2D w"
  by (simp_all add: disposeMesh_def)

lemma buildChunkMesh_fields [simp]:
  "chunksData (buildChunkMesh w cx cz d) = chunksData w"
  "dirtyChunks (buildChunkMesh w cx cz d) = dirtyChunks w"
  "knownChunkKeys (buildChunkMesh w cx cz d) = knownChunkKeys w"
  "loadingChunks (buildChunkMesh w cx cz d) = loadingChunks w"
  "seed (buildChunkMesh w cx cz d) = seed w"
  "noise2D (buildChunkMesh w cx cz d) = noise2D w"
  by (simp_all add: buildChunkMesh_def Let_def)

lemma generateChunk_data:
  "chunksData (fst (generateChunk rnd n w cx cz)) =
     AList.update (chunkKey cx cz)
       (fst (treePass rnd (terrainPass (noise2D w) cx cz newVolume, n))) (chunksData w)"
  "dirtyChunks (fst (generateChunk rnd n w cx cz)) = set_add (chunkKey cx cz) (dirtyChunks w)"
  "knownChunkKeys (fst (generateChunk rnd n w cx cz)) = knownChunkKeys w"
  "loadingChunks (fst (generateChunk rnd n w cx cz)) = loadingChunks w"
  by (simp_all add: generateChunk_def Let_def split: prod.splits)






text \<open>The second segment of saveWorld, in closed form.\<close>

definition cachedDirty :: "world \<Rightarrow> key list" where
  "cachedDirty w = filter (\<lambda>k. map_of (chunksData w) k \<noteq> None) (dirtyChunks w)"

lemma saveWorld_chunks_fold:
  "fold (\<lambda>k (w, promises).
             case map_of (chunksData w) k of
               None \<Rightarrow> (w, promises)
             | Some data \<Rightarrow>
                 (w\<lparr>knownChunkKeys := set_add k (knownChunkKeys w)\<rparr>, promises @ [(k, data)]))
       ks (w, ps) =
   (w\<lparr>knownChunkKeys := fold set_add (filter (\<lambda>k. map_of (chunksData w) k \<noteq> None) ks) (knownChunkKeys w)\<rparr>,
    ps @ map (\<lambda>k. (k, the (map_of (chunksData w) k))) (filter (\<lambda>k. map_of (chunksData w) k \<noteq> None) ks))"
proof (induction ks arbitrary: w ps)
  case Nil
  then show ?case by simp
next
  case (Cons k ks)
  show ?case
    by (cases "map_of (chunksData w) k") (simp_all add: Cons.IH)
qed

lemma saveWorld_chunks_eq:
  "saveWorld_chunks w =
     (w\<lparr>knownChunkKeys := fold set_add (cachedDirty w) (knownChunkKeys w)\<rparr>,
      map (\<lambda>k. (k, the (map_of (chunksData w) k))) (cachedDirty w))"
  unfolding saveWorld_chunks_def cachedDirty_def by (simp add: saveWorld_chunks_fold)

lemma cachedDirty_all: "dirtyCached w \<Longrightarrow> cachedDirty w = dirtyChunks w"
  unfolding cachedDirty_def dirtyCached_def by (rule filter_True) auto


















text \<open>
  \<open>update\<close> is a sequence of the steps above, so the reachable states are closed under
  it.
\<close>

lemma reachable_updateCell:
  "reachable lib (fst s) \<Longrightarrow> reachable lib (fst (updateCell rnd x z s))"
proof (cases s)
  case (fields w n fs)
  assume "reachable lib (fst s)"
  then show ?thesis
    using r_ensure [of lib w rnd n x z "chunkKey x z"]
    unfolding fields updateCell_def
    by (auto simp: Let_def split: prod.splits)
qed

lemma reachable_update:
  assumes "reachable lib w"
  shows "reachable lib (fst (update rnd n isMobile w p))"
proof -
  have row: "reachable lib (fst (fold (updateCell rnd x) zs s))" if "reachable lib (fst s)" for x zs s
    by (rule fold_invariant [where I = "\<lambda>s. reachable lib (fst s)"])
       (use reachable_updateCell that in auto)
  have grid: "reachable lib (fst (fold (\<lambda>x. fold (updateCell rnd x) zs) xs (w, n, [])))" for xs zs
    by (rule fold_invariant [where I = "\<lambda>s. reachable lib (fst s)"]) (use row assms in auto)
  have unload: "reachable lib (fold (\<lambda>e w. if \<not> set_has a (fst e) then unloadVisual e w else w) es w')"
    if "reachable lib w'" for a es w'
    by (rule fold_invariant [where I = "reachable lib"]) (use that r_unload in auto)
  show ?thesis
    unfolding update_def Let_def
    by (auto intro!: r_evict unload grid)
qed

lemma map_of_key_map:
  "map_of (map (\<lambda>k. (k, f k)) ks) k = (if k \<in> set ks then Some (f k) else None)"
  by (induction ks) auto

section \<open>saveWorld\<close>

definition world2 :: world where
  "world2 = \<lparr>chunks = [], chunksData = [((0, 0), newVolume), ((1, 0), newVolume)],
     dirtyChunks = [(0, 0)], knownChunkKeys = [], loadingChunks = [], seed = 1,
     noise2D = (\<lambda>x y. 0), scene = [], disposed = []\<rparr>"

definition emptyDb :: db where
  "emptyDb = \<lparr>chunkStore = [], playerStore = None\<rparr>"

text \<open>
  Claim C8 (the code breaks it). A run of \<open>saveWorld\<close> in which \<open>setBlock\<close> is called
  while the writes are awaited: chunk \<open>(0, 0)\<close> is dirty when the loop runs and is the
  only key written; \<open>setBlock(16, 1, 0, STONE)\<close> then changes chunk \<open>(1, 0)\<close> and marks
  it dirty; when the writes have succeeded, \<open>dirtyChunks.clear()\<close> clears the flag of
  \<open>(1, 0)\<close> too, although no write was issued for it and its cached volume differs
  from what the store holds.
\<close>

theorem saveWorld_race:
  "(let (w1, promises) = saveWorld_chunks world2;
        w2 = setBlock w1 16 1 0 STONE;
        d' = settleWrites (\<lambda>k. True) promises emptyDb;
        w3 = saveWorld_clear w2
    in map fst promises = [(0, 0)]
     \<and> set (dirtyChunks w2) = {(0, 0), (1, 0)}
     \<and> dirtyChunks w3 = []
     \<and> db_get_chunk d' (1, 0) = None
     \<and> map_of (chunksData w3) (1, 0) = Some (u8_set newVolume 16 STONE)
     \<and> u8_get (u8_set newVolume 16 STONE) 16 = Some STONE
     \<and> u8_get newVolume 16 = Some AIR)"
proof -
  have c: "cachedDirty world2 = [(0, 0)]" by (simp add: cachedDirty_def world2_def)
  have w1: "saveWorld_chunks world2 =
      (world2\<lparr>knownChunkKeys := [(0, 0)]\<rparr>, [((0, 0), newVolume)])"
    by (simp add: saveWorld_chunks_eq c) (simp add: world2_def set_add_def)
  have sb: "setBlock (world2\<lparr>knownChunkKeys := [(0, 0)]\<rparr>) 16 1 0 STONE =
     (let k = (1, 0);
          data' = u8_set newVolume 16 STONE;
          newMesh = generateChunkMesh data' 1 0
      in world2\<lparr>knownChunkKeys := [(0, 0)],
            chunksData := AList.update k data' (chunksData world2),
            dirtyChunks := set_add k (dirtyChunks world2),
            scene := [newMesh], disposed := [],
            chunks := AList.update k newMesh []\<rparr>)"
    using setBlock_write [of "world2\<lparr>knownChunkKeys := [(0, 0)]\<rparr>" 16 0 newVolume 1 STONE]
    by (simp add: chunkSize_def chunkKey_def getBlockIndex_def Let_def)
       (simp add: world2_def)
  have l: "length newVolume = 4096" by (simp add: newVolume_def chunkSize_def)
  show ?thesis
    unfolding w1 
    by (simp add: sb Let_def saveWorld_clear_def settleWrites_def db_set_chunk_def
        db_get_chunk_def emptyDb_def u8_get_set_same l)
       (simp add: world2_def set_add_def u8_get_def newVolume_def chunkSize_def BLOCK_defs)
qed

section \<open>Saving and loading\<close>

lemma set_fold_set_add: "set (fold set_add ks s) = set s \<union> set ks"
  by (induction ks arbitrary: s) (auto simp: set_set_add)

lemma settleWrites_meta: "playerStore (settleWrites ok ws d) = playerStore d"
  unfolding settleWrites_def
  by (induction ws arbitrary: d) (auto simp: db_set_chunk_def)

lemma settleWrites_lookup:
  "\<forall>k\<in>set ks. ok k \<Longrightarrow>
   db_get_chunk (settleWrites ok (map (\<lambda>k. (k, f k)) ks) d) k =
     (if k \<in> set ks then Some (f k) else db_get_chunk d k)"
  unfolding settleWrites_def
proof (induction ks arbitrary: d)
  case Nil
  then show ?case by simp
next
  case (Cons a ks)
  then show ?case
    by (auto simp: db_get_chunk_def db_set_chunk_def update_conv')
qed

lemma db_keys_dom: "set (db_keys d) = dom (db_get_chunk d)"
proof -
  have "db_get_chunk d = map_of (chunkStore d)"
    by (rule ext) (simp add: db_get_chunk_def)
  then show ?thesis by (simp add: db_keys_def dom_map_of_conv_image_fst)
qed

lemma saveWorld_success:
  assumes "metaOk" and "\<forall>k\<in>set (cachedDirty (other1 w)). ok k"
  shows "saveWorld w d pd metaOk ok other1 other2 =
     (Inr (),
      saveWorld_clear (other2 ((other1 w)\<lparr>knownChunkKeys :=
        fold set_add (cachedDirty (other1 w)) (knownChunkKeys (other1 w))\<rparr>)),
      settleWrites ok (map (\<lambda>k. (k, the (map_of (chunksData (other1 w)) k))) (cachedDirty (other1 w)))
        (db_set_meta \<lparr>meta_position = fst pd, meta_inventory = snd pd,
                      meta_seed = Some (seed w)\<rparr> d))"
  using assms
  by (simp add: saveWorld_def saveWorld_chunks_eq Let_def list_all_iff)

lemma saveWorld_failure:
  assumes "metaOk" and "\<not> (\<forall>k\<in>set (cachedDirty (other1 w)). ok k)"
  shows "fst (saveWorld w d pd metaOk ok other1 other2) = Inl StoreUnavailable"
    and "fst (snd (saveWorld w d pd metaOk ok other1 other2)) =
      other2 (fst (saveWorld_chunks (other1 w)))"
  using assms
  by (auto simp: saveWorld_def saveWorld_chunks_eq Let_def list_all_iff)

text \<open>
  A call of \<open>saveWorld\<close> whose writes succeed, whatever runs during its suspensions, as
  long as the dirty keys are all cached when the loop runs: the call succeeds, the
  player record is in the store, the store has received the volume of every key that
  was dirty when the loop ran, as it was then, and no other chunk record, and the
  dirty set is empty at the end.
\<close>

lemma saveWorld_stored:
  assumes inv: "dirtyCached (other1 w)" and ok: "\<forall>k\<in>set (dirtyChunks (other1 w)). ok k"
  shows "fst (saveWorld w d pd True ok other1 other2) = Inr ()"
    and "dirtyChunks (fst (snd (saveWorld w d pd True ok other1 other2))) = []"
    and "db_get_meta (snd (snd (saveWorld w d pd True ok other1 other2))) =
          Some \<lparr>meta_position = fst pd, meta_inventory = snd pd, meta_seed = Some (seed w)\<rparr>"
    and "db_get_chunk (snd (snd (saveWorld w d pd True ok other1 other2))) k =
          (if k \<in> set (dirtyChunks (other1 w)) then map_of (chunksData (other1 w)) k
           else db_get_chunk d k)"
proof -
  have c: "cachedDirty (other1 w) = dirtyChunks (other1 w)" using inv by (rule cachedDirty_all)
  have cached: "\<And>k. k \<in> set (dirtyChunks (other1 w)) \<Longrightarrow>
      Some (the (map_of (chunksData (other1 w)) k)) = map_of (chunksData (other1 w)) k"
    using inv by (auto simp: dirtyCached_def)
  note s = saveWorld_success [of True other1 w ok d pd other2, unfolded c, OF TrueI ok]
  show "fst (saveWorld w d pd True ok other1 other2) = Inr ()" by (simp add: s)
  show "dirtyChunks (fst (snd (saveWorld w d pd True ok other1 other2))) = []"
    by (simp add: s saveWorld_clear_def)
  show "db_get_meta (snd (snd (saveWorld w d pd True ok other1 other2))) =
          Some \<lparr>meta_position = fst pd, meta_inventory = snd pd, meta_seed = Some (seed w)\<rparr>"
    by (simp add: s db_get_meta_def settleWrites_meta) (simp add: db_set_meta_def)
  show "db_get_chunk (snd (snd (saveWorld w d pd True ok other1 other2))) k =
          (if k \<in> set (dirtyChunks (other1 w)) then map_of (chunksData (other1 w)) k
           else db_get_chunk d k)"
    using ok cached
    by (simp add: s settleWrites_lookup) (simp add: db_get_chunk_def db_set_meta_def)
qed

text \<open>
  \<open>saveWorld\<close> run without interruption on a world whose dirty keys are all cached:
  on success the player record and the volume of every dirty key are in the store,
  the other records are untouched, the writes issued are those of the dirty keys, and
  the dirty set is empty; when a chunk write fails the dirty set is as before; when
  the write of the player record fails nothing has changed.
\<close>

lemma saveWorld_uninterrupted:
  assumes inv: "dirtyCached w"
  shows "\<not> metaOk \<Longrightarrow>
      saveWorld w d pd metaOk ok (\<lambda>w. w) (\<lambda>w. w) = (Inl StoreUnavailable, w, d)"
    and "metaOk \<Longrightarrow> \<forall>k\<in>set (dirtyChunks w). ok k \<Longrightarrow>
      fst (saveWorld w d pd metaOk ok (\<lambda>w. w) (\<lambda>w. w)) = Inr ()
      \<and> dirtyChunks (fst (snd (saveWorld w d pd metaOk ok (\<lambda>w. w) (\<lambda>w. w)))) = []
      \<and> map fst (snd (saveWorld_chunks w)) = dirtyChunks w
      \<and> db_get_meta (snd (snd (saveWorld w d pd metaOk ok (\<lambda>w. w) (\<lambda>w. w)))) =
          Some \<lparr>meta_position = fst pd, meta_inventory = snd pd, meta_seed = Some (seed w)\<rparr>
      \<and> (\<forall>k. db_get_chunk (snd (snd (saveWorld w d pd metaOk ok (\<lambda>w. w) (\<lambda>w. w)))) k =
            (if k \<in> set (dirtyChunks w) then map_of (chunksData w) k else db_get_chunk d k))"
    and "metaOk \<Longrightarrow> \<not> (\<forall>k\<in>set (dirtyChunks w). ok k) \<Longrightarrow>
      fst (saveWorld w d pd metaOk ok (\<lambda>w. w) (\<lambda>w. w)) = Inl StoreUnavailable
      \<and> dirtyChunks (fst (snd (saveWorld w d pd metaOk ok (\<lambda>w. w) (\<lambda>w. w)))) = dirtyChunks w"
proof -
  have c: "cachedDirty w = dirtyChunks w" using inv by (rule cachedDirty_all)
  show "\<not> metaOk \<Longrightarrow>
      saveWorld w d pd metaOk ok (\<lambda>w. w) (\<lambda>w. w) = (Inl StoreUnavailable, w, d)"
    by (simp add: saveWorld_def)
  show "fst (saveWorld w d pd metaOk ok (\<lambda>w. w) (\<lambda>w. w)) = Inl StoreUnavailable
      \<and> dirtyChunks (fst (snd (saveWorld w d pd metaOk ok (\<lambda>w. w) (\<lambda>w. w)))) = dirtyChunks w"
    if "metaOk" "\<not> (\<forall>k\<in>set (dirtyChunks w). ok k)"
    using that saveWorld_failure [of metaOk "\<lambda>w. w" w ok d pd "\<lambda>w. w"] c
    by (simp add: saveWorld_chunks_eq)
  show "fst (saveWorld w d pd metaOk ok (\<lambda>w. w) (\<lambda>w. w)) = Inr ()
      \<and> dirtyChunks (fst (snd (saveWorld w d pd metaOk ok (\<lambda>w. w) (\<lambda>w. w)))) = []
      \<and> map fst (snd (saveWorld_chunks w)) = dirtyChunks w
      \<and> db_get_meta (snd (snd (saveWorld w d pd metaOk ok (\<lambda>w. w) (\<lambda>w. w)))) =
          Some \<lparr>meta_position = fst pd, meta_inventory = snd pd, meta_seed = Some (seed w)\<rparr>
      \<and> (\<forall>k. db_get_chunk (snd (snd (saveWorld w d pd metaOk ok (\<lambda>w. w) (\<lambda>w. w)))) k =
            (if k \<in> set (dirtyChunks w) then map_of (chunksData w) k else db_get_chunk d k))"
    if ok: "metaOk" "\<forall>k\<in>set (dirtyChunks w). ok k"
    using saveWorld_stored [of "\<lambda>w. w" w ok d pd "\<lambda>w. w"] inv ok c
    by (simp add: saveWorld_chunks_eq comp_def)
qed


section \<open>The dirty set across a save\<close>








section \<open>The round trip of a block through the store\<close>

lemma newWorld_fields [simp]:
  "chunksData (newWorld lib sc r) = []" "dirtyChunks (newWorld lib sc r) = []"
  "knownChunkKeys (newWorld lib sc r) = []" "loadingChunks (newWorld lib sc r) = []"
  "chunks (newWorld lib sc r) = []"
  by (simp_all add: newWorld_def Let_def)

lemma loadWorld_fields:
  "chunksData (snd (loadWorld lib w d True)) = chunksData w"
  "loadingChunks (snd (loadWorld lib w d True)) = loadingChunks w"
  "set (knownChunkKeys (snd (loadWorld lib w d True))) = set (knownChunkKeys w) \<union> set (db_keys d)"
  by (simp_all add: loadWorld_def Let_def set_fold_set_add split: option.splits)

text \<open>
  A fresh World that loads a store and streams in a chunk the store has a record of:
  \<open>ensureChunk\<close> issues a fetch, and after the callback of the fetch the cache holds
  the stored volume.
\<close>

lemma fresh_world_streams:
  assumes "db_get_chunk d1 k = Some v"
  shows "ensureChunk rnd n (snd (loadWorld lib (newWorld lib sc r) d1 True)) cx cz k =
      ((snd (loadWorld lib (newWorld lib sc r) d1 True))\<lparr>loadingChunks := [k]\<rparr>, n, Some k)"
    and "chunksData (fst (ensureChunk_then rnd n
          ((snd (loadWorld lib (newWorld lib sc r) d1 True))\<lparr>loadingChunks := [k]\<rparr>) cx cz k
          (db_get_chunk d1 k))) = [(k, v)]"
proof -
  let ?f1 = "snd (loadWorld lib (newWorld lib sc r) d1 True)"
  have "k \<in> set (db_keys d1)" using assms by (auto simp: db_keys_dom)
  then have f1: "chunksData ?f1 = []" "loadingChunks ?f1 = []" "k \<in> set (knownChunkKeys ?f1)"
    using loadWorld_fields [of lib "newWorld lib sc r" d1] by simp_all
  show "ensureChunk rnd n ?f1 cx cz k = (?f1\<lparr>loadingChunks := [k]\<rparr>, n, Some k)"
    using f1 by (simp add: ensureChunk_def set_has_def set_add_def)
  show "chunksData (fst (ensureChunk_then rnd n (?f1\<lparr>loadingChunks := [k]\<rparr>) cx cz k
          (db_get_chunk d1 k))) = [(k, v)]"
    using f1 by (simp add: assms ensureChunk_then_def Let_def)
qed

text \<open>
  The round trip when the flag and the block survive the first suspension. Let the
  volume \<open>data\<close> of the chunk of \<open>(x, y, z)\<close> be cached (4096 bytes), \<open>0 \<le> y < 16\<close>. Call
  \<open>setBlock(x, y, z, t)\<close>, then \<open>saveWorld\<close> with every store operation succeeding,
  and let the handlers that run before its loop leave the chunk dirty and its volume
  as \<open>setBlock\<close> left it (as they do when none runs); what runs after the loop is
  arbitrary. Then a fresh World that loads the store and streams the chunk in reads
  \<open>t mod 256\<close> at \<open>(x, y, z)\<close>, which is \<open>t\<close> for a block type id.
\<close>

lemma block_roundtrip_kept:
  assumes cached: "map_of (chunksData w) (chunkKey (x div chunkSize) (z div chunkSize)) = Some data"
    and len: "length data = 4096" and y: "0 \<le> y" "y < chunkSize"
    and inv: "dirtyCached (other1 (setBlock w x y z t))"
    and flag: "chunkKey (x div chunkSize) (z div chunkSize) \<in> set (dirtyChunks (other1 (setBlock w x y z t)))"
    and vol: "map_of (chunksData (other1 (setBlock w x y z t))) (chunkKey (x div chunkSize) (z div chunkSize)) =
        map_of (chunksData (setBlock w x y z t)) (chunkKey (x div chunkSize) (z div chunkSize))"
  shows "(let k = chunkKey (x div chunkSize) (z div chunkSize);
        (res, w1, d1) = saveWorld (setBlock w x y z t) d pd True (\<lambda>k. True) other1 other2;
        (res', f1) = loadWorld lib (newWorld lib sc r) d1 True;
        (f2, n1, req) = ensureChunk rnd n f1 (x div chunkSize) (z div chunkSize) k;
        (f3, n2) = ensureChunk_then rnd n1 f2 (x div chunkSize) (z div chunkSize) k
                     (db_get_chunk d1 k)
    in res = Inr () \<and> req = Some k
     \<and> getBlock f3 x y z = Some (t mod 256)
     \<and> (0 \<le> t \<and> t < 256 \<longrightarrow> getBlock f3 x y z = Some t))"
proof -
  let ?k = "chunkKey (x div chunkSize) (z div chunkSize)"
  let ?i = "getBlockIndex (x mod 16) y (z mod 16)"
  let ?data' = "u8_set data ?i t"
  let ?ws = "setBlock w x y z t"
  let ?sv = "saveWorld ?ws d pd True (\<lambda>k. True) other1 other2"
  let ?d1 = "snd (snd ?sv)"
  let ?f1 = "snd (loadWorld lib (newWorld lib sc r) ?d1 True)"
  have y16: "0 \<le> y" "y < 16" using y by (simp_all add: chunkSize_def)
  have i: "0 \<le> ?i \<and> ?i < 4096" using y16 by (intro index_range) simp_all
  have ws: "map_of (chunksData ?ws) ?k = Some ?data'"
    using cached y setBlock_write [of w x z data y t]
    by (simp add: Let_def update_conv')
  have ok: "\<forall>k\<in>set (dirtyChunks (other1 ?ws)). (\<lambda>k. True) k" by simp
  note st = saveWorld_stored [of other1 ?ws "\<lambda>k. True" d pd other2, OF inv ok]
  have res: "fst ?sv = Inr ()" by (rule st(1))
  have get: "db_get_chunk ?d1 ?k = Some ?data'"
    using st(4) [of ?k] flag vol ws by simp
  note fs = fresh_world_streams [OF get, of rnd n lib sc r "x div chunkSize" "z div chunkSize"]
  have gb: "getBlock (fst (ensureChunk_then rnd n (?f1\<lparr>loadingChunks := [?k]\<rparr>)
      (x div chunkSize) (z div chunkSize) ?k (db_get_chunk ?d1 ?k))) x y z = Some (t mod 256)"
    using y len i by (simp add: getBlock_def fs(2) Let_def local_coord u8_get_set_same)
  show ?thesis
    using res gb by (simp add: Let_def split_def fs(1))
qed

definition world3 :: world where
  "world3 = \<lparr>chunks = [], chunksData = [((0, 0), newVolume), ((1, 0), newVolume)],
     dirtyChunks = [(1, 0)], knownChunkKeys = [(0, 0)], loadingChunks = [], seed = 1,
     noise2D = (\<lambda>x y. 0), scene = [], disposed = []\<rparr>"

definition db3 :: db where
  "db3 = \<lparr>chunkStore = [((0, 0), newVolume)], playerStore = None\<rparr>"

text \<open>
  Claim C1 (the code breaks it). The round trip holds when the chunk is still flagged
  dirty, with the block in it, at the moment \<open>saveWorld\<close> runs its loop (lemma
  \<open>block_roundtrip_kept\<close>). It fails when an earlier call of \<open>saveWorld\<close> is still
  pending, which happens because the autosave timer and the inventory handler call
  \<open>saveWorld\<close> without awaiting it. The earlier call ran its loop before \<open>setBlock\<close>;
  its last segment, \<open>dirtyChunks.clear()\<close>, runs while the later call is suspended at
  \<open>await worldDB.set('player', ...)\<close> and removes the flag \<open>setBlock\<close> has set. The
  later call then finds no dirty key: for every world, every \<open>setBlock\<close> and every
  outcome of the chunk writes it succeeds and leaves the chunk records of the store as
  they were. In the run below chunk \<open>(1, 0)\<close> is dirty and chunk \<open>(0, 0)\<close> is cached,
  clean and stored as an empty volume. The earlier call writes \<open>(1, 0)\<close>;
  \<open>setBlock(3, 4, 5, WOOD)\<close> puts wood into chunk \<open>(0, 0)\<close>; the later call succeeds; and
  a fresh World that loads the store and streams chunk \<open>(0, 0)\<close> in reads the empty
  type at \<open>(3, 4, 5)\<close>, not wood.
\<close>

theorem block_roundtrip_lost:
  "saveWorld (setBlock w x y z t) d pd True ok saveWorld_clear (\<lambda>w. w) =
     (Inr (), saveWorld_clear (setBlock w x y z t),
      db_set_meta \<lparr>meta_position = fst pd, meta_inventory = snd pd,
                   meta_seed = Some (seed (setBlock w x y z t))\<rparr> d)
   \<and> (let (wa, promises) = saveWorld_chunks world3;
          da = settleWrites (\<lambda>k. True) promises db3;
          w1 = setBlock wa 3 4 5 WOOD;
          (res, w2, d1) = saveWorld w1 da ((0, 0, 0), []) True (\<lambda>k. True) saveWorld_clear (\<lambda>w. w);
          (res', f1) = loadWorld (\<lambda>f x y. 0) (newWorld (\<lambda>f x y. 0) [] 0) d1 True;
          (f2, n1, req) = ensureChunk (\<lambda>n. 0) 0 f1 0 0 (0, 0);
          (f3, n2) = ensureChunk_then (\<lambda>n. 0) n1 f2 0 0 (0, 0) (db_get_chunk d1 (0, 0))
      in map fst promises = [(1, 0)]
       \<and> getBlock w1 3 4 5 = Some WOOD
       \<and> res = Inr ()
       \<and> req = Some (0, 0)
       \<and> db_get_chunk d1 (0, 0) = Some newVolume
       \<and> getBlock f3 3 4 5 = Some AIR
       \<and> WOOD \<noteq> AIR)"
proof -
  have gen: "saveWorld ws d' pd' True ok' saveWorld_clear (\<lambda>w. w) =
     (Inr (), saveWorld_clear ws,
      db_set_meta \<lparr>meta_position = fst pd', meta_inventory = snd pd',
                   meta_seed = Some (seed ws)\<rparr> d')" for ws d' pd' ok'
    by (simp add: saveWorld_def saveWorld_chunks_def saveWorld_clear_def settleWrites_def Let_def)
  define wa where "wa = world3\<lparr>knownChunkKeys := [(0, 0), (1, 0)]\<rparr>"
  define da where "da = settleWrites (\<lambda>k. True) [((1, 0), newVolume)] db3"
  define w1 where "w1 = setBlock wa 3 4 5 WOOD"
  define d1 where "d1 = db_set_meta \<lparr>meta_position = (0, 0, 0), meta_inventory = [],
      meta_seed = Some (seed w1)\<rparr> da"
  have c: "cachedDirty world3 = [(1, 0)]" by (simp add: cachedDirty_def world3_def)
  have a: "saveWorld_chunks world3 = (wa, [((1, 0), newVolume)])"
    by (simp add: saveWorld_chunks_eq c wa_def) (simp add: world3_def set_add_def)
  have l: "length newVolume = 4096" by (simp add: newVolume_def chunkSize_def)
  have cd: "map_of (chunksData w1) (0, 0) = Some (u8_set newVolume (getBlockIndex 3 4 5) WOOD)"
    unfolding w1_def
    using setBlock_write [of wa 3 5 newVolume 4 WOOD]
    by (simp add: wa_def world3_def chunkSize_def chunkKey_def Let_def)
  have g1: "getBlock w1 3 4 5 = Some WOOD"
    by (simp add: getBlock_def cd Let_def chunkSize_def chunkKey_def u8_get_set_same
        getBlockIndex_def l)
       (simp add: WOOD_def)
  have s: "saveWorld w1 da ((0, 0, 0), []) True (\<lambda>k. True) saveWorld_clear (\<lambda>w. w) =
      (Inr (), saveWorld_clear w1, d1)"
    by (simp add: gen d1_def)
  have get: "db_get_chunk d1 (0, 0) = Some newVolume"
    by (simp add: d1_def da_def settleWrites_def db_set_chunk_def db_set_meta_def
        db_get_chunk_def db3_def)
  note fs = fresh_world_streams [OF get, of "\<lambda>n. 0" 0 "\<lambda>f x y. 0" "[]" 0 0 0]
  have g3: "getBlock (fst (ensureChunk_then (\<lambda>n. 0) 0
      ((snd (loadWorld (\<lambda>f x y. 0) (newWorld (\<lambda>f x y. 0) [] 0) d1 True))\<lparr>loadingChunks := [(0, 0)]\<rparr>)
      0 0 (0, 0) (db_get_chunk d1 (0, 0)))) 3 4 5 = Some AIR"
    by (simp add: getBlock_def fs(2) Let_def chunkSize_def chunkKey_def)
       (simp add: u8_get_def newVolume_def chunkSize_def getBlockIndex_def AIR_def)
  have run: "(let (wa, promises) = saveWorld_chunks world3;
          da = settleWrites (\<lambda>k. True) promises db3;
          w1 = setBlock wa 3 4 5 WOOD;
          (res, w2, d1) = saveWorld w1 da ((0, 0, 0), []) True (\<lambda>k. True) saveWorld_clear (\<lambda>w. w);
          (res', f1) = loadWorld (\<lambda>f x y. 0) (newWorld (\<lambda>f x y. 0) [] 0) d1 True;
          (f2, n1, req) = ensureChunk (\<lambda>n. 0) 0 f1 0 0 (0, 0);
          (f3, n2) = ensureChunk_then (\<lambda>n. 0) n1 f2 0 0 (0, 0) (db_get_chunk d1 (0, 0))
      in map fst promises = [(1, 0)]
       \<and> getBlock w1 3 4 5 = Some WOOD
       \<and> res = Inr ()
       \<and> req = Some (0, 0)
       \<and> db_get_chunk d1 (0, 0) = Some newVolume
       \<and> getBlock f3 3 4 5 = Some AIR
       \<and> WOOD \<noteq> AIR)"
    unfolding a
    using g1 get g3
    by (simp add: Let_def split_def da_def [symmetric] w1_def [symmetric] s fs(1))
       (simp add: BLOCK_defs)
  show ?thesis using gen [of "setBlock w x y z t" d pd ok] run by blast
qed

section \<open>The eviction pass\<close>

definition meshesOf :: "(key \<rightharpoonup> mesh) \<Rightarrow> key list \<Rightarrow> mesh list" where
  "meshesOf m ks = concat (map (\<lambda>k. case m k of None \<Rightarrow> [] | Some x \<Rightarrow> [x]) ks)"

text \<open>The keys \<open>checkMemory\<close> evicts: those of the first 50 entries after the sort.\<close>

definition evictedKeys :: "world \<Rightarrow> real \<times> real \<times> real \<Rightarrow> key list" where
  "evictedKeys w playerPos =
     (let cx = \<lfloor>fst playerPos / real_of_int chunkSize\<rfloor>;
          cz = \<lfloor>snd (snd playerPos) / real_of_int chunkSize\<rfloor>
      in map fst (take 50 (sort_key (\<lambda>e. - chunkDist cx cz (fst e)) (chunksData w))))"

lemma meshesOf_cong: "\<forall>k\<in>set ks. m k = m' k \<Longrightarrow> meshesOf m ks = meshesOf m' ks"
  by (induction ks) (auto simp: meshesOf_def)

lemma meshesOf_Cons:
  "meshesOf m (k # ks) = (case m k of None \<Rightarrow> [] | Some x \<Rightarrow> [x]) @ meshesOf m ks"
  by (simp add: meshesOf_def)

lemma filter_removeAll: "filter P (removeAll k xs) = filter (\<lambda>x. x \<noteq> k \<and> P x) xs"
  by (induction xs) auto

lemma evictOne_eq:
  "evictOne (k, d) (w, ws) =
     (w\<lparr>dirtyChunks := removeAll k (dirtyChunks w),
        chunksData := AList.delete k (chunksData w),
        chunks := AList.delete k (chunks w),
        scene := fold remove1 (meshesOf (map_of (chunks w)) [k]) (scene w),
        disposed := disposed w @ meshesOf (map_of (chunks w)) [k]\<rparr>,
      ws @ (if k \<in> set (dirtyChunks w) then [(k, d)] else []))"
proof (cases "map_of (chunks w) k")
  case None
  then have "k \<notin> fst ` set (chunks w)" by (simp add: map_of_eq_None_iff)
  then show ?thesis
    using None
    by (simp add: evictOne_def Let_def set_has_def set_delete_def meshesOf_def)
next
  case (Some m)
  then show ?thesis
    by (simp add: evictOne_def Let_def set_has_def set_delete_def meshesOf_def disposeMesh_def)
qed

lemma fold_evictOne_eq:
  assumes "distinct (map fst es)"
  shows "fold evictOne es (w, ws) =
     (w\<lparr>dirtyChunks := filter (\<lambda>k. k \<notin> fst ` set es) (dirtyChunks w),
        chunksData := fold (\<lambda>e. AList.delete (fst e)) es (chunksData w),
        chunks := fold (\<lambda>e. AList.delete (fst e)) es (chunks w),
        scene := fold remove1 (meshesOf (map_of (chunks w)) (map fst es)) (scene w),
        disposed := disposed w @ meshesOf (map_of (chunks w)) (map fst es)\<rparr>,
      ws @ filter (\<lambda>e. fst e \<in> set (dirtyChunks w)) es)"
  using assms
proof (induction es arbitrary: w ws)
  case Nil
  then show ?case by (simp add: meshesOf_def)
next
  case (Cons e es)
  obtain k d where e: "e = (k, d)" by (cases e)
  from Cons.prems e have k: "k \<notin> fst ` set es" and dist: "distinct (map fst es)" by auto
  have m: "meshesOf (map_of (AList.delete k (chunks w))) (map fst es) =
      meshesOf (map_of (chunks w)) (map fst es)"
    using k by (intro meshesOf_cong) (auto simp: delete_conv')
  have f: "filter (\<lambda>k'. k' \<notin> fst ` set es) (removeAll k (dirtyChunks w)) =
      filter (\<lambda>k'. k' \<noteq> k \<and> k' \<notin> fst ` set es) (dirtyChunks w)"
    by (rule filter_removeAll)
  have g: "filter (\<lambda>e. fst e \<in> set (dirtyChunks w) \<and> fst e \<noteq> k) es =
      filter (\<lambda>e. fst e \<in> set (dirtyChunks w)) es"
    using k by (intro filter_cong) auto
  show ?case
    unfolding e
    by (simp add: evictOne_eq Cons.IH [OF dist] m f g meshesOf_Cons)
       (simp add: meshesOf_def)
qed


lemma map_of_fold_delete:
  "map_of (fold (\<lambda>e. AList.delete (fst e)) es al) = map_of al |` (- fst ` set es)"
proof (induction es arbitrary: al)
  case Nil
  then show ?case by simp
next
  case (Cons e es)
  show ?case
    by (rule ext) (simp add: Cons.IH delete_conv' restrict_map_def)
qed

lemma fold_evictOne_fields:
  assumes "distinct (map fst es)"
  shows "dirtyChunks (fst (fold evictOne es (w, ws))) =
      filter (\<lambda>k. k \<notin> fst ` set es) (dirtyChunks w)"
    and "map_of (chunksData (fst (fold evictOne es (w, ws)))) =
      map_of (chunksData w) |` (- fst ` set es)"
    and "snd (fold evictOne es (w, ws)) = ws @ filter (\<lambda>e. fst e \<in> set (dirtyChunks w)) es"
  by (simp_all add: fold_evictOne_eq [OF assms] map_of_fold_delete)

lemma known_fold_written:
  "set (knownChunkKeys (fold checkMemory_written ks w)) = set (knownChunkKeys w) \<union> set ks"
  by (induction ks arbitrary: w) (auto simp: checkMemory_written_def set_set_add)

lemma distinct_keys_sort_take:
  assumes "distinct (map fst al)"
  shows "distinct (map fst (take n (sort_key f al)))"
proof -
  from assms have "distinct al" "inj_on fst (set al)" by (simp_all add: distinct_map)
  then have "distinct (map fst (sort_key f al))" by (simp add: distinct_map)
  then show ?thesis by (simp add: take_map [symmetric])
qed

lemma sorted_take_drop:
  assumes "sorted (map f xs)" and "a \<in> set (take n xs)" and "b \<in> set (drop n xs)"
  shows "f a \<le> f b"
proof -
  have "sorted (map f (take n xs) @ map f (drop n xs))"
    using assms(1) by (simp add: map_append [symmetric] del: map_append)
  then show ?thesis using assms(2,3) by (auto simp: sorted_append)
qed

lemma chunkDist_eq: "chunkDist cx cz k = (fst k - cx) ^ 2 + (snd k - cz) ^ 2"
  by (cases k) (simp add: chunkDist_def)

lemma checkMemory_known: "knownChunkKeys (fst (checkMemory w p)) = knownChunkKeys w"
proof -
  have step: "knownChunkKeys (fst (evictOne e s)) = knownChunkKeys (fst s)" for e s
    by (cases e; cases s) (simp add: evictOne_eq)
  have "knownChunkKeys (fst (fold evictOne es s)) = knownChunkKeys (fst s)" for es s
    by (induction es arbitrary: s) (simp_all add: step)
  then show ?thesis by (simp add: checkMemory_def Let_def)
qed

text \<open>
  Claim C7, amended. The eviction pass returns the world unchanged and issues no write
  when the cache holds 500 volumes or fewer. When it holds more (the cache being a
  Map, its keys are distinct), it evicts exactly 50 keys, all cached, and with
  \<open>(cx, cz)\<close> the viewer's chunk they are the most distant by
  \<open>(kx - cx)\<^sup>2 + (kz - cz)\<^sup>2\<close>: they are handled in descending order of that distance,
  and no cached key left behind is farther than an evicted one. For each evicted key
  that is dirty the pass issues a write of the key's cached volume and clears its dirty
  flag (the flags of other keys stay). For every evicted key the volume leaves the
  cache (the others stay) and its mesh, if there is one, is removed from the scene,
  disposed and dropped. The pass itself adds nothing to the known keys: a key is added
  by the callback of its write, when that write has succeeded, so the known keys are
  those before the pass and the keys \<open>ks\<close> whose writes have succeeded.
\<close>

theorem checkMemory_spec:
  "(length (chunksData w) \<le> 500 \<longrightarrow> checkMemory w p = (w, []))
   \<and> (500 < length (chunksData w) \<and> distinct (map fst (chunksData w)) \<longrightarrow>
      (let cx = \<lfloor>fst p / real_of_int chunkSize\<rfloor>;
           cz = \<lfloor>snd (snd p) / real_of_int chunkSize\<rfloor>;
           ev = evictedKeys w p;
           (w', writes) = checkMemory w p;
           ms = meshesOf (map_of (chunks w)) ev
       in length ev = 50 \<and> distinct ev \<and> set ev \<subseteq> dom (map_of (chunksData w))
        \<and> sorted_wrt (\<lambda>a b. (fst b - cx) ^ 2 + (snd b - cz) ^ 2
                               \<le> (fst a - cx) ^ 2 + (snd a - cz) ^ 2) ev
        \<and> (\<forall>e\<in>set ev. \<forall>k\<in>dom (map_of (chunksData w)) - set ev.
              (fst k - cx) ^ 2 + (snd k - cz) ^ 2 \<le> (fst e - cx) ^ 2 + (snd e - cz) ^ 2)
        \<and> map_of (chunksData w') = map_of (chunksData w) |` (- set ev)
        \<and> dirtyChunks w' = filter (\<lambda>k. k \<notin> set ev) (dirtyChunks w)
        \<and> map fst writes = filter (\<lambda>k. k \<in> set (dirtyChunks w)) ev
        \<and> (\<forall>(k, d)\<in>set writes. map_of (chunksData w) k = Some d)
        \<and> map_of (chunks w') = map_of (chunks w) |` (- set ev)
        \<and> scene w' = fold remove1 ms (scene w)
        \<and> disposed w' = disposed w @ ms
        \<and> knownChunkKeys w' = knownChunkKeys w \<and> loadingChunks w' = loadingChunks w
        \<and> seed w' = seed w
        \<and> (\<forall>ks. set (knownChunkKeys (fold checkMemory_written ks w')) =
                   set (knownChunkKeys w) \<union> set ks)))"
proof (intro conjI impI)
  assume "length (chunksData w) \<le> 500"
  then show "checkMemory w p = (w, [])" by (simp add: checkMemory_def)
next
  define cx where "cx = \<lfloor>fst p / real_of_int chunkSize\<rfloor>"
  define cz where "cz = \<lfloor>snd (snd p) / real_of_int chunkSize\<rfloor>"
  define f where "f = (\<lambda>e :: key \<times> volume. - chunkDist cx cz (fst e))"
  define E where "E = take 50 (sort_key f (chunksData w))"
  define R where "R = drop 50 (sort_key f (chunksData w))"
  assume h: "500 < length (chunksData w) \<and> distinct (map fst (chunksData w))"
  then have big: "500 < length (chunksData w)" and dk: "distinct (map fst (chunksData w))"
    by simp_all
  have ev: "evictedKeys w p = map fst E"
    by (simp add: evictedKeys_def E_def f_def cx_def cz_def Let_def)
  have dE: "distinct (map fst E)" unfolding E_def using dk by (rule distinct_keys_sort_take)
  have cm: "checkMemory w p = fold evictOne E (w, [])"
    using big by (simp add: checkMemory_def E_def f_def cx_def cz_def Let_def)
  note closed = fold_evictOne_eq [OF dE, of w "[]"]
  have len: "length (map fst E) = 50" using big by (simp add: E_def)
  have subE: "set E \<subseteq> set (chunksData w)"
    unfolding E_def using set_take_subset [of 50 "sort_key f (chunksData w)"] by simp
  have lookup: "map_of (chunksData w) k = Some d" if "(k, d) \<in> set E" for k d
    using that subE dk by (auto simp: map_of_eq_Some_iff)
  have sub: "set (map fst E) \<subseteq> dom (map_of (chunksData w))"
    using lookup by (auto simp: dom_def)
  have srt: "sorted (map f (sort_key f (chunksData w)))" by simp
  have ER: "E @ R = sort_key f (chunksData w)" by (simp add: E_def R_def)
  have desc: "sorted_wrt (\<lambda>a b. (fst b - cx) ^ 2 + (snd b - cz) ^ 2
                               \<le> (fst a - cx) ^ 2 + (snd a - cz) ^ 2) (map fst E)"
  proof -
    have "sorted (map f E)"
      using srt unfolding ER [symmetric] by (simp add: sorted_append)
    then have "sorted_wrt (\<lambda>a b. chunkDist cx cz b \<le> chunkDist cx cz a) (map fst E)"
      by (simp add: sorted_map sorted_wrt_map f_def)
    then show ?thesis unfolding chunkDist_eq .
  qed
  have far: "\<forall>e\<in>set (map fst E). \<forall>k\<in>dom (map_of (chunksData w)) - set (map fst E).
      (fst k - cx) ^ 2 + (snd k - cz) ^ 2 \<le> (fst e - cx) ^ 2 + (snd e - cz) ^ 2"
  proof (intro ballI)
    fix e k
    assume e: "e \<in> set (map fst E)" and k: "k \<in> dom (map_of (chunksData w)) - set (map fst E)"
    from e obtain a where a: "a \<in> set E" "fst a = e" by auto
    from k obtain d where "(k, d) \<in> set (chunksData w)"
      by (auto dest: map_of_SomeD)
    then have "(k, d) \<in> set (E @ R)" by (simp add: ER)
    with k have b: "(k, d) \<in> set R" by force
    have "f a \<le> f (k, d)"
      using srt a(1) b unfolding E_def R_def by (intro sorted_take_drop [of f _ _ 50]) auto
    then have "chunkDist cx cz k \<le> chunkDist cx cz e"
      using a(2) by (simp add: f_def)
    then show "(fst k - cx) ^ 2 + (snd k - cz) ^ 2 \<le> (fst e - cx) ^ 2 + (snd e - cz) ^ 2"
      unfolding chunkDist_eq .
  qed
  have writes: "(\<forall>(k, d)\<in>set (filter (\<lambda>e. fst e \<in> set (dirtyChunks w)) E).
      map_of (chunksData w) k = Some d)"
    using lookup by auto
  have wk: "map fst (filter (\<lambda>e. fst e \<in> set (dirtyChunks w)) E) =
      filter (\<lambda>k. k \<in> set (dirtyChunks w)) (map fst E)"
    by (simp add: filter_map comp_def)
  show "(let cx = \<lfloor>fst p / real_of_int chunkSize\<rfloor>;
           cz = \<lfloor>snd (snd p) / real_of_int chunkSize\<rfloor>;
           ev = evictedKeys w p;
           (w', writes) = checkMemory w p;
           ms = meshesOf (map_of (chunks w)) ev
       in length ev = 50 \<and> distinct ev \<and> set ev \<subseteq> dom (map_of (chunksData w))
        \<and> sorted_wrt (\<lambda>a b. (fst b - cx) ^ 2 + (snd b - cz) ^ 2
                               \<le> (fst a - cx) ^ 2 + (snd a - cz) ^ 2) ev
        \<and> (\<forall>e\<in>set ev. \<forall>k\<in>dom (map_of (chunksData w)) - set ev.
              (fst k - cx) ^ 2 + (snd k - cz) ^ 2 \<le> (fst e - cx) ^ 2 + (snd e - cz) ^ 2)
        \<and> map_of (chunksData w') = map_of (chunksData w) |` (- set ev)
        \<and> dirtyChunks w' = filter (\<lambda>k. k \<notin> set ev) (dirtyChunks w)
        \<and> map fst writes = filter (\<lambda>k. k \<in> set (dirtyChunks w)) ev
        \<and> (\<forall>(k, d)\<in>set writes. map_of (chunksData w) k = Some d)
        \<and> map_of (chunks w') = map_of (chunks w) |` (- set ev)
        \<and> scene w' = fold remove1 ms (scene w)
        \<and> disposed w' = disposed w @ ms
        \<and> knownChunkKeys w' = knownChunkKeys w \<and> loadingChunks w' = loadingChunks w
        \<and> seed w' = seed w
        \<and> (\<forall>ks. set (knownChunkKeys (fold checkMemory_written ks w')) =
                   set (knownChunkKeys w) \<union> set ks))"
    unfolding Let_def cx_def [symmetric] cz_def [symmetric] ev cm closed prod.case
    using len dE sub desc far writes
    by (simp add: map_of_fold_delete known_fold_written wk)
qed


subsection \<open>A cache of 501 chunks in a row\<close>

text \<open>
  Chunks \<open>(0, 0)\<close> to \<open>(500, 0)\<close>, cached in this order, the nearest and the farthest
  dirty, and the viewer in chunk \<open>(0, 0)\<close>.
\<close>

definition bigWorld :: world where
  "bigWorld = world0\<lparr>chunksData := map (\<lambda>i. ((i, 0), newVolume)) [0..500],
     dirtyChunks := [(500, 0), (0, 0)]\<rparr>"

lemma insort_key_last: "\<forall>y\<in>set ys. f y < f x \<Longrightarrow> insort_key f x ys = ys @ [x]"
  by (induction ys) auto

lemma sort_key_rev: "sorted_wrt (\<lambda>a b. f b < f a) xs \<Longrightarrow> sort_key f xs = rev xs"
proof (induction xs)
  case Nil
  then show ?case by simp
next
  case (Cons x xs)
  then have "\<forall>y\<in>set (rev xs). f y < f x" by simp
  then have "insort_key f x (rev xs) = rev xs @ [x]" by (rule insort_key_last)
  then show ?case using Cons by simp
qed

lemma bigWorld_sorted:
  "sort_key (\<lambda>e. - chunkDist 0 0 (fst e)) (chunksData bigWorld) = rev (chunksData bigWorld)"
proof (rule sort_key_rev)
  have "sorted_wrt (<) [0..500 :: int]" by (rule sorted_wrt_upto)
  then have "sorted_wrt (\<lambda>i j. - chunkDist 0 0 (j, 0) < - chunkDist 0 0 (i, 0)) [0..500]"
  proof (rule sorted_wrt_mono_rel [rotated])
    fix i j :: int
    assume "i \<in> set [0..500]" "j \<in> set [0..500]" "i < j"
    then have "0 \<le> i" "i < j" by simp_all
    then have "i ^ 2 < j ^ 2" by (intro power_strict_mono) simp_all
    then show "- chunkDist 0 0 (j, 0) < - chunkDist 0 0 (i, 0)" by (simp add: chunkDist_def)
  qed
  then show "sorted_wrt (\<lambda>a b. - chunkDist 0 0 (fst b) < - chunkDist 0 0 (fst a))
      (chunksData bigWorld)"
    by (simp add: bigWorld_def sorted_wrt_map del: upto_rec_numeral)
qed

lemma upto_drop: "drop 451 [0..500 :: int] = [451..500]"
proof -
  have "[0..500 :: int] = [0..450] @ [451..500]"
    using upto_split2 [of 0 450 500] by (simp del: upto_rec_numeral)
  then show ?thesis by (simp del: upto_rec_numeral)
qed

lemma bigWorld_entries:
  "take 50 (sort_key (\<lambda>e. - chunkDist 0 0 (fst e)) (chunksData bigWorld)) =
     rev (map (\<lambda>i. ((i, 0), newVolume)) [451..500])"
proof -
  have "take 50 (rev (chunksData bigWorld)) = rev (drop 451 (chunksData bigWorld))"
    by (simp add: take_rev bigWorld_def del: upto_rec_numeral)
  then show ?thesis
    unfolding bigWorld_sorted
    by (simp add: bigWorld_def drop_map upto_drop del: upto_rec_numeral)
qed

lemma bigWorld_evicted:
  "evictedKeys bigWorld (0, 0, 0) = rev (map (\<lambda>i. (i, 0)) [451..500])"
  by (simp add: evictedKeys_def Let_def bigWorld_entries rev_map comp_def del: upto_rec_numeral)

lemma bigWorld_run:
  "checkMemory bigWorld (0, 0, 0) =
     fold evictOne (rev (map (\<lambda>i. ((i, 0), newVolume)) [451..500])) (bigWorld, [])"
proof -
  have "500 < length (chunksData bigWorld)" by (simp add: bigWorld_def del: upto_rec_numeral)
  then show ?thesis by (simp add: checkMemory_def Let_def bigWorld_entries del: upto_rec_numeral)
qed

lemma far_row_filter: "filter (\<lambda>i. i = 500 \<or> i = 0) [451..500 :: int] = [500]"
proof -
  have a: "[451..500 :: int] = [451..499] @ [500]"
    using upto_rec2 [of 451 500] by (simp del: upto_rec_numeral)
  have b: "filter (\<lambda>i. i = 500 \<or> i = 0) [451..499 :: int] = []"
    by (simp del: upto_rec_numeral)
  show ?thesis unfolding a by (simp add: b del: upto_rec_numeral)
qed

lemma bigWorld_dirty: "dirtyChunks bigWorld = [(500, 0), (0, 0)]"
  by (simp add: bigWorld_def)

lemma bigWorld_far_dirty_keys:
  "filter (\<lambda>k. k \<in> set (dirtyChunks bigWorld)) (rev (map (\<lambda>i. (i, 0)) [451..500])) = [(500, 0)]"
proof -
  have "filter (\<lambda>k. k \<in> set (dirtyChunks bigWorld)) (map (\<lambda>i. (i, 0)) [451..500]) =
      map (\<lambda>i. (i, 0)) (filter (\<lambda>i. i = 500 \<or> i = 0) [451..500])"
    unfolding bigWorld_dirty filter_map by (simp add: comp_def del: upto_rec_numeral)
  then show ?thesis
    unfolding rev_filter [symmetric] far_row_filter by simp
qed

lemma bigWorld_far_dirty_entries:
  "filter (\<lambda>e. fst e \<in> set (dirtyChunks bigWorld))
     (rev (map (\<lambda>i. ((i, 0), newVolume)) [451..500])) = [((500, 0), newVolume)]"
proof -
  have "filter (\<lambda>e. fst e \<in> set (dirtyChunks bigWorld)) (map (\<lambda>i. ((i, 0), newVolume)) [451..500]) =
      map (\<lambda>i. ((i, 0), newVolume)) (filter (\<lambda>i. i = 500 \<or> i = 0) [451..500])"
    unfolding bigWorld_dirty filter_map by (simp add: comp_def del: upto_rec_numeral)
  then show ?thesis
    unfolding rev_filter [symmetric] far_row_filter by simp
qed

lemma far_row_keys:
  "(k, 0) \<in> set (rev (map (\<lambda>i. (i, 0)) [451..500 :: int])) \<longleftrightarrow> 451 \<le> k \<and> k \<le> 500"
  by (auto simp del: upto_rec_numeral)

theorem checkMemory_spec_witness:
  "checkMemory world0 (0, 0, 0) = (world0, [])
   \<and> evictedKeys bigWorld (0, 0, 0) = rev (map (\<lambda>i. (i, 0)) [451..500])
   \<and> dirtyChunks (fst (checkMemory bigWorld (0, 0, 0))) = [(0, 0)]
   \<and> map fst (snd (checkMemory bigWorld (0, 0, 0))) = [(500, 0)]
   \<and> map_of (chunksData (fst (checkMemory bigWorld (0, 0, 0)))) (451, 0) = None
   \<and> map_of (chunksData (fst (checkMemory bigWorld (0, 0, 0)))) (450, 0) = Some newVolume
   \<and> set (knownChunkKeys (fold checkMemory_written [(500, 0)]
        (fst (checkMemory bigWorld (0, 0, 0))))) = {(500, 0)}"
proof -
  let ?w' = "fst (checkMemory bigWorld (0, 0, 0))"
  let ?ev = "evictedKeys bigWorld (0, 0, 0)"
  have small: "length (chunksData world0) \<le> 500" by (simp add: world0_def)
  have big: "500 < length (chunksData bigWorld) \<and> distinct (map fst (chunksData bigWorld))"
    by (simp add: bigWorld_def comp_def distinct_map inj_on_def del: upto_rec_numeral)
  have kn: "knownChunkKeys bigWorld = []" by (simp add: bigWorld_def world0_def)
  have c450: "map_of (chunksData bigWorld) (450, 0) = Some newVolume"
    using map_of_key_map [of "\<lambda>k. newVolume" "map (\<lambda>i. (i, 0)) [0..500]" "(450, 0)"]
    by (simp add: bigWorld_def comp_def del: upto_rec_numeral)
  have s: "checkMemory world0 (0, 0, 0) = (world0, [])"
    using checkMemory_spec [of world0 "(0, 0, 0)"] small by simp
  note T = checkMemory_spec [of bigWorld "(0, 0, 0)", THEN conjunct2, THEN mp, OF big,
      unfolded Let_def split_def]
  have d1: "dirtyChunks ?w' = filter (\<lambda>k. k \<notin> set ?ev) (dirtyChunks bigWorld)"
    and d2: "map fst (snd (checkMemory bigWorld (0, 0, 0))) =
        filter (\<lambda>k. k \<in> set (dirtyChunks bigWorld)) ?ev"
    and d3: "map_of (chunksData ?w') = map_of (chunksData bigWorld) |` (- set ?ev)"
    and d4: "\<forall>ks. set (knownChunkKeys (fold checkMemory_written ks ?w')) =
        set (knownChunkKeys bigWorld) \<union> set ks"
    using T by blast+
  have e1: "dirtyChunks ?w' = [(0, 0)]"
    unfolding d1 bigWorld_evicted bigWorld_dirty by (simp add: far_row_keys del: set_rev set_map)
  have e2: "map fst (snd (checkMemory bigWorld (0, 0, 0))) = [(500, 0)]"
    unfolding d2 bigWorld_evicted by (rule bigWorld_far_dirty_keys)
  have e3: "map_of (chunksData ?w') (451, 0) = None"
    unfolding d3 bigWorld_evicted by (simp add: far_row_keys restrict_map_def del: set_rev set_map)
  have e4: "map_of (chunksData ?w') (450, 0) = Some newVolume"
    unfolding d3 bigWorld_evicted
    by (simp add: far_row_keys restrict_map_def c450 del: set_rev set_map)
  have e5: "set (knownChunkKeys (fold checkMemory_written [(500, 0)] ?w')) = {(500, 0)}"
    using d4 [rule_format, of "[(500, 0)]"] kn by simp
  show ?thesis using s bigWorld_evicted e1 e2 e3 e4 e5 by blast
qed

text \<open>
  The claim as stated fails where it says that the pass adds the key to the known
  keys. In the cache above the key \<open>(500, 0)\<close> is dirty and is evicted: when the pass
  returns, its write has been issued, its flag is cleared and its volume is gone, and
  it is not among the known keys. It is added by the callback of the write, and no
  callback runs when the write fails.
\<close>

theorem checkMemory_known_late:
  "(500, 0) \<in> set (dirtyChunks bigWorld)
   \<and> (500, 0) \<in> set (evictedKeys bigWorld (0, 0, 0))
   \<and> snd (checkMemory bigWorld (0, 0, 0)) = [((500, 0), newVolume)]
   \<and> (500, 0) \<notin> set (dirtyChunks (fst (checkMemory bigWorld (0, 0, 0))))
   \<and> map_of (chunksData (fst (checkMemory bigWorld (0, 0, 0)))) (500, 0) = None
   \<and> (500, 0) \<notin> set (knownChunkKeys (fst (checkMemory bigWorld (0, 0, 0))))
   \<and> (500, 0) \<in> set (knownChunkKeys (checkMemory_written (500, 0)
        (fst (checkMemory bigWorld (0, 0, 0)))))"
proof -
  let ?E = "rev (map (\<lambda>i. ((i, 0), newVolume)) [451..500])"
  let ?w' = "fst (checkMemory bigWorld (0, 0, 0))"
  have keys: "map fst ?E = rev (map (\<lambda>i. (i, 0)) [451..500])"
    by (simp add: rev_map comp_def del: upto_rec_numeral)
  have dE: "distinct (map fst ?E)"
    unfolding keys by (simp add: distinct_map inj_on_def del: upto_rec_numeral)
  have kn: "knownChunkKeys bigWorld = []" by (simp add: bigWorld_def world0_def)
  have f: "(500, 0) \<in> fst ` set ?E"
    using far_row_keys [of 500] unfolding keys [symmetric] by simp
  have a: "(500, 0) \<in> set (dirtyChunks bigWorld)" by (simp add: bigWorld_dirty)
  have b: "(500, 0) \<in> set (evictedKeys bigWorld (0, 0, 0))"
    unfolding bigWorld_evicted using far_row_keys [of 500] by simp
  have c: "snd (checkMemory bigWorld (0, 0, 0)) = [((500, 0), newVolume)]"
    unfolding bigWorld_run fold_evictOne_fields(3) [OF dE] bigWorld_far_dirty_entries by simp
  have dc: "dirtyChunks ?w' = filter (\<lambda>k. k \<notin> fst ` set ?E) (dirtyChunks bigWorld)"
    unfolding bigWorld_run by (rule fold_evictOne_fields(1) [OF dE])
  have cdw: "map_of (chunksData ?w') = map_of (chunksData bigWorld) |` (- fst ` set ?E)"
    unfolding bigWorld_run by (rule fold_evictOne_fields(2) [OF dE])
  have d: "(500, 0) \<notin> set (dirtyChunks ?w')"
    unfolding dc set_filter using f by blast
  have e: "map_of (chunksData ?w') (500, 0) = None"
    unfolding cdw restrict_map_def using f by auto
  have g: "(500, 0) \<notin> set (knownChunkKeys ?w')"
    by (simp add: checkMemory_known kn)
  have h: "(500, 0) \<in> set (knownChunkKeys (checkMemory_written (500, 0) ?w'))"
    by (simp add: checkMemory_written_def set_set_add)
  show ?thesis using a b c d e g h by blast
qed

section \<open>Terrain generation\<close>

lemma columnHeight_range: "1 \<le> columnHeight noise wx wz \<and> columnHeight noise wx wz \<le> 15"
  by (simp add: columnHeight_def Let_def chunkSize_def)

lemma columnHeight_clamp:
  "columnHeight noise wx wz =
     max 1 (min 15 (\<lfloor>noise (real_of_int wx / 50) (real_of_int wz / 50) * 8\<rfloor> + 4))"
  by (simp add: columnHeight_def Let_def chunkSize_def TERRAIN_SCALE_def TERRAIN_HEIGHT_def
      OFFSET_def)

lemma columnType_byte: "columnType h y mod 256 = columnType h y"
  by (simp add: columnType_def BLOCK_defs)

text \<open>
  A fold of steps each of which sets some cells of the chunk to a value that depends
  on the cell only, and keeps the others.
\<close>

lemma fold_cells:
  assumes step: "\<And>a data. a \<in> set xs \<Longrightarrow> length data = 4096 \<Longrightarrow>
      length (g a data) = 4096 \<and>
      (\<forall>x y z. in_chunk x y z \<longrightarrow>
         cell (g a data) x y z = (if P a x y z then Some (v x y z) else cell data x y z))"
    and len: "length data = 4096"
  shows "length (fold g xs data) = 4096 \<and>
      (\<forall>x y z. in_chunk x y z \<longrightarrow>
         cell (fold g xs data) x y z =
           (if \<exists>a\<in>set xs. P a x y z then Some (v x y z) else cell data x y z))"
  using step len
proof (induction xs arbitrary: data)
  case Nil
  then show ?case by simp
next
  case (Cons a xs)
  have s: "length (g a data) = 4096 \<and>
      (\<forall>x y z. in_chunk x y z \<longrightarrow>
         cell (g a data) x y z = (if P a x y z then Some (v x y z) else cell data x y z))"
    using Cons.prems by simp
  have ih: "length (fold g xs (g a data)) = 4096 \<and>
      (\<forall>x y z. in_chunk x y z \<longrightarrow>
         cell (fold g xs (g a data)) x y z =
           (if \<exists>a\<in>set xs. P a x y z then Some (v x y z) else cell (g a data) x y z))"
    using Cons.prems s by (intro Cons.IH) simp_all
  show ?case using s ih by auto
qed

lemma fillColumn_cells:
  assumes "length data = 4096" and "0 \<le> x" "x < 16" "0 \<le> z" "z < 16" and "h \<le> 15"
  shows "length (fillColumn data x z h) = 4096 \<and>
      (\<forall>x' y' z'. in_chunk x' y' z' \<longrightarrow>
         cell (fillColumn data x z h) x' y' z' =
           (if x' = x \<and> z' = z \<and> y' \<le> h then Some (columnType h y') else cell data x' y' z'))"
proof -
  have "length (fold (\<lambda>y data. u8_set data (getBlockIndex x y z) (columnType h y)) [0..h] data) = 4096 \<and>
      (\<forall>x' y' z'. in_chunk x' y' z' \<longrightarrow>
         cell (fold (\<lambda>y data. u8_set data (getBlockIndex x y z) (columnType h y)) [0..h] data) x' y' z' =
           (if \<exists>a\<in>set [0..h]. (x', y', z') = (x, a, z) then Some (columnType h y')
            else cell data x' y' z'))"
  proof (rule fold_cells [where P = "\<lambda>a x' y' z'. (x', y', z') = (x, a, z)"])
    fix a and d :: volume
    assume a: "a \<in> set [0..h]" and l: "length d = 4096"
    then have c: "in_chunk x a z" using assms by (simp add: in_chunk_def chunkSize_def)
    show "length (u8_set d (getBlockIndex x a z) (columnType h a)) = 4096 \<and>
         (\<forall>x' y' z'. in_chunk x' y' z' \<longrightarrow>
           cell (u8_set d (getBlockIndex x a z) (columnType h a)) x' y' z' =
             (if (x', y', z') = (x, a, z) then Some (columnType h y') else cell d x' y' z'))"
      using c l by (auto simp: length_u8_set cell_u8_set columnType_byte)
  qed (rule assms(1))
  then show ?thesis
    unfolding fillColumn_def by (auto simp: in_chunk_def)
qed

lemma terrainPass_cells:
  assumes c: "in_chunk x y z"
  shows "cell (terrainPass noise cx cz newVolume) x y z =
     (let h = columnHeight noise (cx * chunkSize + x) (cz * chunkSize + z) in
      if y \<le> h then Some (columnType h y) else Some AIR)"
    and "length (terrainPass noise cx cz newVolume) = 4096"
proof -
  let ?H = "\<lambda>x z. columnHeight noise (cx * chunkSize + x) (cz * chunkSize + z)"
  let ?row = "\<lambda>x data. fold (\<lambda>z data. fillColumn data x z (?H x z)) [0..15] data"
  have row: "length (?row a d) = 4096 \<and>
      (\<forall>x' y' z'. in_chunk x' y' z' \<longrightarrow>
         cell (?row a d) x' y' z' =
           (if \<exists>b\<in>set [0..15]. x' = a \<and> z' = b \<and> y' \<le> ?H x' z'
            then Some (columnType (?H x' z') y') else cell d x' y' z'))"
    if "a \<in> set [0..15]" "length d = 4096" for a d
  proof (rule fold_cells [where P = "\<lambda>b x' y' z'. x' = a \<and> z' = b \<and> y' \<le> ?H x' z'"])
    fix b and d' :: volume
    assume b: "b \<in> set [0..15]" and l: "length d' = 4096"
    show "length (fillColumn d' a b (?H a b)) = 4096 \<and>
         (\<forall>x' y' z'. in_chunk x' y' z' \<longrightarrow>
           cell (fillColumn d' a b (?H a b)) x' y' z' =
             (if x' = a \<and> z' = b \<and> y' \<le> ?H x' z' then Some (columnType (?H x' z') y')
              else cell d' x' y' z'))"
      using fillColumn_cells [of d' a b "?H a b"] that(1) b l columnHeight_range
      by auto
  qed (rule that(2))
  have l0: "length newVolume = 4096" by (simp add: newVolume_def chunkSize_def)
  have all: "length (fold ?row [0..15] newVolume) = 4096 \<and>
      (\<forall>x' y' z'. in_chunk x' y' z' \<longrightarrow>
         cell (fold ?row [0..15] newVolume) x' y' z' =
           (if \<exists>a\<in>set [0..15]. \<exists>b\<in>set [0..15]. x' = a \<and> z' = b \<and> y' \<le> ?H x' z'
            then Some (columnType (?H x' z') y') else cell newVolume x' y' z'))"
    by (rule fold_cells [where P = "\<lambda>a x' y' z'. \<exists>b\<in>set [0..15]. x' = a \<and> z' = b \<and> y' \<le> ?H x' z'"])
       (use row l0 in auto)
  have tp: "terrainPass noise cx cz newVolume = fold ?row [0..15] newVolume"
    by (simp add: terrainPass_def chunkSize_def Let_def)
  show "length (terrainPass noise cx cz newVolume) = 4096" using all tp by simp
  show "cell (terrainPass noise cx cz newVolume) x y z =
     (let h = columnHeight noise (cx * chunkSize + x) (cz * chunkSize + z) in
      if y \<le> h then Some (columnType h y) else Some AIR)"
    using all c unfolding tp Let_def
    by (auto simp: cell_newVolume in_chunk_def chunkSize_def)
qed


subsection \<open>The vegetation pass\<close>

lemma treeColumn_no_tree: "0.01 \<le> rnd n \<Longrightarrow> fst (treeColumn rnd x z (data, n)) = data"
  by (simp add: treeColumn_def Let_def)

lemma treePass_no_tree:
  assumes "\<forall>i. 0.01 \<le> rnd i"
  shows "fst (treePass rnd (data, n)) = data"
proof -
  have step: "fst (treeColumn rnd x z s) = data" if "fst s = data" for x z s
    using that assms treeColumn_no_tree [of rnd "snd s" x z "fst s"] by (cases s) simp
  have row: "fst (fold (\<lambda>z. treeColumn rnd x z) zs s) = data" if "fst s = data" for x zs s
    by (rule fold_invariant [where I = "\<lambda>s. fst s = data"]) (use step that in auto)
  show ?thesis
    unfolding treePass_def
    by (rule fold_invariant [where I = "\<lambda>s. fst s = data"]) (use row in auto)
qed

text \<open>The cells of the bottom layer are those given by \<open>c\<close>.\<close>

definition bottomIs :: "(int \<Rightarrow> int \<Rightarrow> int option) \<Rightarrow> volume \<Rightarrow> bool" where
  "bottomIs c data = (length data = 4096 \<and>
     (\<forall>x z. 0 \<le> x \<and> x < 16 \<and> 0 \<le> z \<and> z < 16 \<longrightarrow> cell data x 0 z = c x z))"

lemma bottomIs_u8_set:
  assumes "bottomIs c data" and "in_chunk x y z" and "1 \<le> y"
  shows "bottomIs c (u8_set data (getBlockIndex x y z) v)"
  using assms
  by (auto simp: bottomIs_def length_u8_set cell_u8_set in_chunk_def chunkSize_def)

lemma bottomIs_leafWrite: "bottomIs c data \<Longrightarrow> 1 \<le> y \<Longrightarrow> bottomIs c (leafWrite data x y z)"
  by (auto simp: leafWrite_def Let_def in_chunk_def intro!: bottomIs_u8_set)

lemma bottomIs_trunkWrite:
  "bottomIs c data \<Longrightarrow> 0 \<le> sx \<Longrightarrow> sx < 16 \<Longrightarrow> 0 \<le> sz \<Longrightarrow> sz < 16 \<Longrightarrow> 1 \<le> sy + y
   \<Longrightarrow> bottomIs c (trunkWrite sx sy sz y data)"
  by (auto simp: trunkWrite_def Let_def in_chunk_def chunkSize_def intro!: bottomIs_u8_set)

lemma bottomIs_leafCell:
  "bottomIs c (fst s) \<Longrightarrow> 1 \<le> y \<Longrightarrow> bottomIs c (fst (leafCell rnd sx sz radius y x z s))"
  by (cases s) (auto simp: leafCell_def Let_def bottomIs_leafWrite)

lemma bottomIs_leafLayer:
  assumes "bottomIs c (fst s)" and "1 \<le> y"
  shows "bottomIs c (fst (leafLayer rnd sx sy sz th y s))"
proof -
  have row: "bottomIs c (fst (fold (\<lambda>z. leafCell rnd sx sz radius y x z) zs s'))"
    if "bottomIs c (fst s')" for radius x zs s'
    by (rule fold_invariant [where I = "\<lambda>s. bottomIs c (fst s)"])
       (use that assms(2) bottomIs_leafCell in auto)
  show ?thesis
    unfolding leafLayer_def Let_def
    by (rule fold_invariant [where I = "\<lambda>s. bottomIs c (fst s)"]) (use row assms(1) in auto)
qed

lemma bottomIs_placeTree:
  assumes b: "bottomIs c data" and r: "0 \<le> sx" "sx < 16" "0 \<le> sz" "sz < 16" "1 \<le> sy"
    and rnd: "0 \<le> rnd n"
  shows "bottomIs c (fst (placeTree rnd (data, n) sx sy sz))"
proof -
  define th where "th = \<lfloor>rnd n * 2\<rfloor> + 4"
  have th: "4 \<le> th" using rnd by (simp add: th_def)
  have trunk: "bottomIs c (fold (trunkWrite sx sy sz) [0..th - 1] data)"
    by (rule fold_invariant [where I = "bottomIs c"])
       (use b r bottomIs_trunkWrite in auto)
  have "bottomIs c (fst (fold (leafLayer rnd sx sy sz th) [sy + th - 2..sy + th + 1]
      (fold (trunkWrite sx sy sz) [0..th - 1] data, n + 1)))"
  proof (rule fold_invariant [where I = "\<lambda>s. bottomIs c (fst s)"])
    fix a and s :: "volume \<times> nat"
    assume a: "a \<in> set [sy + th - 2..sy + th + 1]" and s: "bottomIs c (fst s)"
    from a have "sy + th - 2 \<le> a" by simp
    with th r(5) have "1 \<le> a" by linarith
    with s show "bottomIs c (fst (leafLayer rnd sx sy sz th a s))"
      by (rule bottomIs_leafLayer)
  qed (use trunk in simp)
  then show ?thesis by (simp add: placeTree_def Let_def th_def)
qed

lemma bottomIs_treeColumn:
  assumes "bottomIs c (fst s)" and "\<forall>i. 0 \<le> rnd i"
  shows "bottomIs c (fst (treeColumn rnd x z s))"
proof (cases s)
  case (Pair data n)
  show ?thesis
    using assms bottomIs_placeTree [of c data x z "findSurface data x z + 1" rnd "n + 1"]
    unfolding Pair
    by (auto simp: treeColumn_def Let_def chunkSize_def)
qed

lemma bottomIs_treePass:
  assumes "bottomIs c data" and "\<forall>i. 0 \<le> rnd i"
  shows "bottomIs c (fst (treePass rnd (data, n)))"
proof -
  have row: "bottomIs c (fst (fold (\<lambda>z. treeColumn rnd x z) zs s))"
    if "bottomIs c (fst s)" for x zs s
    by (rule fold_invariant [where I = "\<lambda>s. bottomIs c (fst s)"])
       (use that assms(2) bottomIs_treeColumn in auto)
  show ?thesis
    unfolding treePass_def
    by (rule fold_invariant [where I = "\<lambda>s. bottomIs c (fst s)"]) (use row assms(1) in auto)
qed


text \<open>A cell that holds wood keeps it: trunks write wood and leaves do not replace wood.\<close>

lemma wood_u8_set:
  "u8_get data i = Some WOOD \<Longrightarrow> u8_get (u8_set data j WOOD) i = Some WOOD"
  by (cases "j = i")
     (auto simp: u8_get_set_other, auto simp: u8_get_def u8_set_def WOOD_def split: if_splits)

lemma wood_trunkWrite:
  "u8_get data i = Some WOOD \<Longrightarrow> u8_get (trunkWrite sx sy sz y data) i = Some WOOD"
  by (simp add: trunkWrite_def Let_def wood_u8_set)

lemma wood_leafWrite:
  assumes "u8_get data i = Some WOOD"
  shows "u8_get (leafWrite data x y z) i = Some WOOD"
proof (cases "getBlockIndex x y z = i")
  case True
  then show ?thesis using assms by (simp add: leafWrite_def Let_def)
next
  case False
  then show ?thesis using assms by (simp add: leafWrite_def Let_def u8_get_set_other)
qed

lemma wood_leafCell:
  "u8_get (fst s) i = Some WOOD \<Longrightarrow> u8_get (fst (leafCell rnd sx sz radius y x z s)) i = Some WOOD"
  by (cases s) (auto simp: leafCell_def Let_def wood_leafWrite)

lemma wood_leafLayer:
  assumes "u8_get (fst s) i = Some WOOD"
  shows "u8_get (fst (leafLayer rnd sx sy sz th y s)) i = Some WOOD"
proof -
  have row: "u8_get (fst (fold (\<lambda>z. leafCell rnd sx sz radius y x z) zs s')) i = Some WOOD"
    if "u8_get (fst s') i = Some WOOD" for radius x zs s'
    by (rule fold_invariant [where I = "\<lambda>s. u8_get (fst s) i = Some WOOD"])
       (use that wood_leafCell in auto)
  show ?thesis
    unfolding leafLayer_def Let_def
    by (rule fold_invariant [where I = "\<lambda>s. u8_get (fst s) i = Some WOOD"])
       (use row assms in auto)
qed

lemma wood_leaves:
  "u8_get (fst s) i = Some WOOD \<Longrightarrow>
   u8_get (fst (fold (leafLayer rnd sx sy sz th) ys s)) i = Some WOOD"
  by (rule fold_invariant [where I = "\<lambda>s. u8_get (fst s) i = Some WOOD"])
     (use wood_leafLayer in auto)

lemma wood_trunk:
  "u8_get data i = Some WOOD \<Longrightarrow> u8_get (fold (trunkWrite sx sy sz) ys data) i = Some WOOD"
  by (rule fold_invariant [where I = "\<lambda>d. u8_get d i = Some WOOD"])
     (use wood_trunkWrite in auto)

lemma wood_placeTree:
  "u8_get data i = Some WOOD \<Longrightarrow> u8_get (fst (placeTree rnd (data, n) sx sy sz)) i = Some WOOD"
  by (simp add: placeTree_def Let_def wood_leaves wood_trunk)

lemma wood_treeColumn:
  "u8_get (fst s) i = Some WOOD \<Longrightarrow> u8_get (fst (treeColumn rnd x z s)) i = Some WOOD"
  by (cases s) (auto simp: treeColumn_def Let_def wood_placeTree)

lemma wood_row:
  "u8_get (fst s) i = Some WOOD \<Longrightarrow>
   u8_get (fst (fold (\<lambda>z. treeColumn rnd x z) zs s)) i = Some WOOD"
  by (rule fold_invariant [where I = "\<lambda>s. u8_get (fst s) i = Some WOOD"])
     (use wood_treeColumn in auto)

lemma wood_rows:
  "u8_get (fst s) i = Some WOOD \<Longrightarrow>
   u8_get (fst (fold (\<lambda>x. fold (\<lambda>z. treeColumn rnd x z) zs) xs s)) i = Some WOOD"
  by (rule fold_invariant [where I = "\<lambda>s. u8_get (fst s) i = Some WOOD"])
     (use wood_row in auto)

text \<open>A tree has wood at the foot of its trunk.\<close>

lemma placeTree_foot:
  assumes l: "length data = 4096" and r: "in_chunk sx sy sz" and rnd: "0 \<le> rnd n"
  shows "u8_get (fst (placeTree rnd (data, n) sx sy sz)) (getBlockIndex sx sy sz) = Some WOOD"
proof -
  define th where "th = \<lfloor>rnd n * 2\<rfloor> + 4"
  have th: "4 \<le> th" using rnd by (simp add: th_def)
  then have ys: "[0..th - 1] = 0 # [1..th - 1]" by (simp add: upto_rec1)
  have i: "0 \<le> getBlockIndex sx sy sz \<and> getBlockIndex sx sy sz < 4096"
    using r by (intro index_range) (simp_all add: in_chunk_def chunkSize_def)
  have first: "u8_get (trunkWrite sx sy sz 0 data) (getBlockIndex sx sy sz) = Some WOOD"
    using r i l by (simp add: trunkWrite_def in_chunk_def u8_get_set_same) (simp add: WOOD_def)
  have t: "u8_get (fold (trunkWrite sx sy sz) [0..th - 1] data) (getBlockIndex sx sy sz) = Some WOOD"
    unfolding ys using first by (simp add: wood_trunk)
  have eq: "placeTree rnd (data, n) sx sy sz =
      fold (leafLayer rnd sx sy sz th) [sy + th - 2..sy + th + 1]
        (fold (trunkWrite sx sy sz) [0..th - 1] data, n + 1)"
    by (simp add: placeTree_def Let_def th_def)
  show ?thesis unfolding eq using t by (intro wood_leaves) simp
qed

subsection \<open>A chunk of flat terrain with one tree\<close>

definition flatNoise :: "real \<Rightarrow> real \<Rightarrow> real" where
  "flatNoise x y = 0"

definition flatTerrain :: volume where
  "flatTerrain = terrainPass flatNoise 0 0 newVolume"

text \<open>Random values that grow a tree in the column the 79th draw decides, and only there.\<close>

definition oneTree :: "nat \<Rightarrow> real" where
  "oneTree i = (if i = 78 then 0 else 1 / 2)"

lemma flat_height: "columnHeight flatNoise wx wz = 4"
  by (simp add: columnHeight_def flatNoise_def Let_def OFFSET_def chunkSize_def)

lemma flat_cell:
  "in_chunk x y z \<Longrightarrow>
   u8_get flatTerrain (getBlockIndex x y z) = (if y \<le> 4 then Some (columnType 4 y) else Some AIR)"
  using terrainPass_cells(1) [of x y z flatNoise 0 0]
  by (simp add: flatTerrain_def flat_height cell_def)

lemma upto_0_15: "[0..15] = [0, 1, 2, 3, 4, 5, 6, 7, 8, 9, 10, 11, 12, 13, 14, 15 :: int]"
  by code_simp

lemma flat_surface:
  assumes "0 \<le> x" "x < 16" "0 \<le> z" "z < 16"
  shows "findSurface flatTerrain x z = 4"
    and "u8_get flatTerrain (getBlockIndex x 4 z) = Some GRASS"
proof -
  have c: "in_chunk x y z" if "0 \<le> y" "y < 16" for y
    using assms that by (simp add: in_chunk_def chunkSize_def)
  show "findSurface flatTerrain x z = 4"
    by (simp add: findSurface_def chunkSize_def upto_0_15 flat_cell c)
       (simp add: columnType_def BLOCK_defs)
  show "u8_get flatTerrain (getBlockIndex x 4 z) = Some GRASS"
    by (simp add: flat_cell c columnType_def)
qed

lemma flat_column_skip:
  assumes "0 \<le> x" "x < 16" "0 \<le> z" "z < 16" and "0.01 \<le> rnd n \<or> \<not> (2 \<le> x \<and> x < 14 \<and> 2 \<le> z \<and> z < 14)"
  shows "treeColumn rnd x z (flatTerrain, n) =
     (flatTerrain, if 2 \<le> x \<and> x < 14 \<and> 2 \<le> z \<and> z < 14 then n + 1 else n)"
  using assms flat_surface [of x z]
  by (auto simp: treeColumn_def Let_def chunkSize_def)

lemma flat_row_skip:
  assumes "0 \<le> x" "x < 16" and "\<forall>z\<in>set zs. 0 \<le> z \<and> z < 16"
    and "\<forall>i. 2 \<le> x \<and> x < 14 \<and> n \<le> i \<and> i < n + length (filter (\<lambda>z. 2 \<le> z \<and> z < 14) zs)
           \<longrightarrow> 0.01 \<le> rnd i"
  shows "fold (\<lambda>z. treeColumn rnd x z) zs (flatTerrain, n) =
     (flatTerrain, if 2 \<le> x \<and> x < 14 then n + length (filter (\<lambda>z. 2 \<le> z \<and> z < 14) zs) else n)"
  using assms(3,4)
proof (induction zs arbitrary: n)
  case Nil
  then show ?case by simp
next
  case (Cons z zs)
  show ?case
  proof (cases "2 \<le> x \<and> x < 14 \<and> 2 \<le> z \<and> z < 14")
    case True
    then have "0.01 \<le> rnd n" using Cons.prems(2) by simp
    then have st: "treeColumn rnd x z (flatTerrain, n) = (flatTerrain, n + 1)"
      using flat_column_skip [of x z rnd n] assms(1,2) Cons.prems(1) True by simp
    have "fold (\<lambda>z. treeColumn rnd x z) zs (flatTerrain, n + 1) =
       (flatTerrain, if 2 \<le> x \<and> x < 14 then n + 1 + length (filter (\<lambda>z. 2 \<le> z \<and> z < 14) zs) else n + 1)"
      using Cons.prems True by (intro Cons.IH) auto
    then show ?thesis using st True by simp
  next
    case False
    then have st: "treeColumn rnd x z (flatTerrain, n) = (flatTerrain, n)"
      using flat_column_skip [of x z rnd n] assms(1,2) Cons.prems(1) by simp
    have "fold (\<lambda>z. treeColumn rnd x z) zs (flatTerrain, n) =
       (flatTerrain, if 2 \<le> x \<and> x < 14 then n + length (filter (\<lambda>z. 2 \<le> z \<and> z < 14) zs) else n)"
      using Cons.prems False by (intro Cons.IH) auto
    then show ?thesis using st False by auto
  qed
qed

lemma flat_rows_skip:
  assumes "\<forall>x\<in>set xs. 0 \<le> x \<and> x < 16"
    and "\<forall>i. n \<le> i \<and> i < n + 12 * length (filter (\<lambda>x. 2 \<le> x \<and> x < 14) xs) \<longrightarrow> 0.01 \<le> rnd i"
  shows "fold (\<lambda>x. fold (\<lambda>z. treeColumn rnd x z) [0..15]) xs (flatTerrain, n) =
     (flatTerrain, n + 12 * length (filter (\<lambda>x. 2 \<le> x \<and> x < 14) xs))"
  using assms
proof (induction xs arbitrary: n)
  case Nil
  then show ?case by simp
next
  case (Cons x xs)
  have cnt: "length (filter (\<lambda>z. 2 \<le> z \<and> z < 14) [0..15 :: int]) = 12"
    by (simp add: upto_0_15)
  have zs: "\<forall>z\<in>set [0..15 :: int]. 0 \<le> z \<and> z < 16" by simp
  have x: "0 \<le> x" "x < 16" using Cons.prems(1) by simp_all
  show ?case
  proof (cases "2 \<le> x \<and> x < 14")
    case True
    have "\<forall>i. 2 \<le> x \<and> x < 14 \<and> n \<le> i \<and> i < n + 12 \<longrightarrow> 0.01 \<le> rnd i"
      using Cons.prems(2) True by simp
    then have row: "fold (\<lambda>z. treeColumn rnd x z) [0..15] (flatTerrain, n) = (flatTerrain, n + 12)"
      using flat_row_skip [of x "[0..15]" n rnd] x True zs unfolding cnt by simp
    have "fold (\<lambda>x. fold (\<lambda>z. treeColumn rnd x z) [0..15]) xs (flatTerrain, n + 12) =
       (flatTerrain, n + 12 + 12 * length (filter (\<lambda>x. 2 \<le> x \<and> x < 14) xs))"
      using Cons.prems True by (intro Cons.IH) auto
    then show ?thesis using row True by simp
  next
    case False
    then have "\<forall>i. 2 \<le> x \<and> x < 14 \<and> n \<le> i \<and> i < n + 12 \<longrightarrow> 0.01 \<le> rnd i"
      by blast
    then have row: "fold (\<lambda>z. treeColumn rnd x z) [0..15] (flatTerrain, n) = (flatTerrain, n)"
      using flat_row_skip [of x "[0..15]" n rnd] x False zs unfolding cnt by simp
    have "fold (\<lambda>x. fold (\<lambda>z. treeColumn rnd x z) [0..15]) xs (flatTerrain, n) =
       (flatTerrain, n + 12 * length (filter (\<lambda>x. 2 \<le> x \<and> x < 14) xs))"
      using Cons.prems False by (intro Cons.IH) auto
    then show ?thesis using row False by auto
  qed
qed

lemma length_flatTerrain: "length flatTerrain = 4096"
  unfolding flatTerrain_def
  by (rule terrainPass_cells(2) [of 0 0 0]) (simp add: in_chunk_def chunkSize_def)

lemma oneTree_trunk:
  "u8_get (fst (treePass oneTree (flatTerrain, 0))) (getBlockIndex 8 5 8) = Some WOOD"
proof -
  let ?G = "\<lambda>x z. treeColumn oneTree x z"
  let ?F = "\<lambda>x. fold (?G x) [0..15]"
  define pre :: "int list" where "pre = [0, 1, 2, 3, 4, 5, 6, 7]"
  define post :: "int list" where "post = [9, 10, 11, 12, 13, 14, 15]"
  have split: "[0..15 :: int] = pre @ 8 # post"
    by (simp add: upto_0_15 pre_def post_def)
  have s1: "fold ?F pre (flatTerrain, 0) = (flatTerrain, 72)"
    using flat_rows_skip [of pre 0 oneTree]
    by (simp add: oneTree_def pre_def)
  have s2: "fold (?G 8) pre (flatTerrain, 72) = (flatTerrain, 78)"
    using flat_row_skip [of 8 pre 72 oneTree]
    by (simp add: oneTree_def pre_def)
  have s3: "?G 8 8 (flatTerrain, 78) = placeTree oneTree (flatTerrain, 79) 8 5 8"
    using flat_surface [of 8 8]
    by (simp add: treeColumn_def Let_def chunkSize_def oneTree_def)
  have foot: "u8_get (fst (placeTree oneTree (flatTerrain, 79) 8 5 8)) (getBlockIndex 8 5 8) = Some WOOD"
    by (rule placeTree_foot)
       (simp_all add: length_flatTerrain in_chunk_def chunkSize_def oneTree_def)
  have r8: "?F 8 (flatTerrain, 72) =
      fold (?G 8) post (placeTree oneTree (flatTerrain, 79) 8 5 8)"
    unfolding split by (simp add: s2 s3)
  have row8: "u8_get (fst (?F 8 (flatTerrain, 72))) (getBlockIndex 8 5 8) = Some WOOD"
    unfolding r8 using foot by (rule wood_row)
  have all: "fold ?F (pre @ 8 # post) (flatTerrain, 0) = fold ?F post (?F 8 (flatTerrain, 72))"
    by (simp add: s1)
  have "u8_get (fst (fold ?F (pre @ 8 # post) (flatTerrain, 0))) (getBlockIndex 8 5 8) = Some WOOD"
    unfolding all using row8 by (rule wood_rows)
  then show ?thesis by (simp add: treePass_def chunkSize_def split [symmetric])
qed

lemma getBlock_generated:
  assumes "0 \<le> lx" "lx < 16" "0 \<le> lz" "lz < 16"
  shows "getBlock (fst (generateChunk rnd n w cx cz)) (cx * chunkSize + lx) y (cz * chunkSize + lz) =
     (if y < 0 \<or> 16 \<le> y then Some 0
      else cell (fst (treePass rnd (terrainPass (noise2D w) cx cz newVolume, n))) lx y lz)"
proof -
  have d: "(cx * 16 + lx) div 16 = cx" "(cz * 16 + lz) div 16 = cz"
    using assms by simp_all
  show ?thesis
    by (simp add: getBlock_def generateChunk_data Let_def chunkSize_def d chunkKey_def
        update_conv' cell_def)
qed


subsection \<open>Where a tree writes\<close>

lemma fold_fst:
  assumes "\<And>a p. fst (F a p) = G a (fst p)"
  shows "fst (fold F xs p) = fold G xs (fst p)"
  using assms by (induction xs arbitrary: p) simp_all

lemma fold_unchanged: "(\<And>a s. a \<in> set xs \<Longrightarrow> F a s = s) \<Longrightarrow> fold F xs s = s"
  by (induction xs) simp_all

text \<open>The logged pass does to the volume what the pass does.\<close>

lemma treeColumnLog_fst: "fst (treeColumnLog rnd x z p) = treeColumn rnd x z (fst p)"
proof -
  obtain data n cs where p: "p = ((data, n), cs)" by (metis prod.collapse)
  show ?thesis unfolding p by (simp add: treeColumnLog_def treeColumn_def Let_def)
qed

lemma treePassLog_fst: "fst (treePassLog rnd p) = treePass rnd (fst p)"
proof -
  have row: "fst (fold (\<lambda>z. treeColumnLog rnd x z) zs q) = fold (\<lambda>z. treeColumn rnd x z) zs (fst q)"
    for x zs q
    by (rule fold_fst [where F = "\<lambda>z. treeColumnLog rnd x z" and G = "\<lambda>z. treeColumn rnd x z"])
       (rule treeColumnLog_fst)
  show ?thesis
    unfolding treePassLog_def treePass_def
    by (rule fold_fst [where F = "\<lambda>x. fold (\<lambda>z. treeColumnLog rnd x z) [0..chunkSize - 1]"
          and G = "\<lambda>x. fold (\<lambda>z. treeColumn rnd x z) [0..chunkSize - 1]"])
       (rule row)
qed

lemma leafWrite_frame:
  assumes "length data = 4096" and "in_chunk x y z" and "(x', y', z') \<noteq> (x, y, z)"
  shows "length (leafWrite data x' y' z') = 4096
     \<and> cell (leafWrite data x' y' z') x y z = cell data x y z"
  using assms
  by (auto simp: leafWrite_def Let_def cell_u8_set length_u8_set in_chunk_def)

lemma leafWrite_length: "length (leafWrite data x y z) = length data"
  by (simp add: leafWrite_def Let_def length_u8_set)

lemma leafCell_frame:
  assumes "length (fst s) = 4096" and "in_chunk x y z" and "(x', y', z') \<noteq> (x, y, z)"
  shows "length (fst (leafCell rnd sx sz r y' x' z' s)) = 4096
     \<and> cell (fst (leafCell rnd sx sz r y' x' z' s)) x y z = cell (fst s) x y z"
proof -
  obtain data n where s: "s = (data, n)" by (cases s)
  show ?thesis
    using assms leafWrite_frame [of data x y z x' y' z']
    unfolding s by (simp add: leafCell_def Let_def)
qed

lemma leafCell_length: "length (fst (leafCell rnd sx sz r y x z s)) = length (fst s)"
  by (cases s) (simp add: leafCell_def Let_def leafWrite_length)

lemma leafCell_counter: "snd s \<le> snd (leafCell rnd sx sz r y x z s)"
  by (cases s) (simp add: leafCell_def Let_def)

lemma leafLayer_frame:
  assumes len: "length (fst s) = 4096" and c: "in_chunk x y z"
    and out: "2 < \<bar>sx - x\<bar> \<or> 2 < \<bar>sz - z\<bar> \<or> y' \<noteq> y"
  shows "length (fst (leafLayer rnd sx sy sz th y' s)) = 4096
     \<and> cell (fst (leafLayer rnd sx sy sz th y' s)) x y z = cell (fst s) x y z"
proof -
  define r :: int where
    "r = (if y' - (sy + th - 1) = 2 then 1 else if y' - (sy + th - 1) = - 1 then 2 else 2)"
  define v where "v = cell (fst s) x y z"
  have r: "r \<le> 2" by (simp add: r_def)
  let ?I = "\<lambda>t :: volume \<times> nat. length (fst t) = 4096 \<and> cell (fst t) x y z = v"
  have row: "?I (fold (\<lambda>z'. leafCell rnd sx sz r y' x' z') [sz - r..sz + r] t)"
    if t: "?I t" and x': "x' \<in> set [sx - r..sx + r]" for x' t
  proof (rule fold_invariant [where I = ?I])
    fix z' and u :: "volume \<times> nat"
    assume z': "z' \<in> set [sz - r..sz + r]" and u: "?I u"
    have "(x', y', z') \<noteq> (x, y, z)" using out x' z' r by auto
    then show "?I (leafCell rnd sx sz r y' x' z' u)"
      using leafCell_frame [of u x y z x' y' z' rnd sx sz r] u c by simp
  qed (rule t)
  have "?I (fold (\<lambda>x'. fold (\<lambda>z'. leafCell rnd sx sz r y' x' z') [sz - r..sz + r])
      [sx - r..sx + r] s)"
    by (rule fold_invariant [where I = ?I]) (use row len in \<open>auto simp: v_def\<close>)
  then show ?thesis by (simp add: leafLayer_def Let_def r_def v_def)
qed

lemma leafLayer_length: "length (fst (leafLayer rnd sx sy sz th y s)) = length (fst s)"
proof -
  have row: "length (fst (fold (\<lambda>z. leafCell rnd sx sz r y x z) zs t)) = length (fst s)"
    if "length (fst t) = length (fst s)" for r x zs t
    by (rule fold_invariant [where I = "\<lambda>t. length (fst t) = length (fst s)"])
       (use that in \<open>auto simp: leafCell_length\<close>)
  show ?thesis
    unfolding leafLayer_def Let_def
    by (rule fold_invariant [where I = "\<lambda>t. length (fst t) = length (fst s)"])
       (use row in auto)
qed

lemma leafLayer_counter: "snd s \<le> snd (leafLayer rnd sx sy sz th y s)"
proof -
  have row: "snd s \<le> snd (fold (\<lambda>z. leafCell rnd sx sz r y x z) zs t)"
    if "snd s \<le> snd t" for r x zs t
  proof (rule fold_invariant [where I = "\<lambda>t. snd s \<le> snd t"])
    fix z and u :: "volume \<times> nat"
    assume "snd s \<le> snd u"
    then show "snd s \<le> snd (leafCell rnd sx sz r y x z u)"
      using leafCell_counter [of u rnd sx sz r y x z] by simp
  qed (rule that)
  show ?thesis
    unfolding leafLayer_def Let_def
    by (rule fold_invariant [where I = "\<lambda>t. snd s \<le> snd t"]) (use row in auto)
qed

lemma trunkWrite_frame:
  assumes "length data = 4096" and "in_chunk x y z"
    and "0 \<le> sx" "sx < 16" "0 \<le> sz" "sz < 16" "0 \<le> sy + i"
    and "(sx, sy + i, sz) \<noteq> (x, y, z)"
  shows "length (trunkWrite sx sy sz i data) = 4096
     \<and> cell (trunkWrite sx sy sz i data) x y z = cell data x y z"
  using assms
  by (auto simp: trunkWrite_def Let_def cell_u8_set length_u8_set in_chunk_def chunkSize_def)

lemma trunkWrite_length: "length (trunkWrite sx sy sz i data) = length data"
  by (simp add: trunkWrite_def Let_def length_u8_set)

lemma placeTree_length: "length (fst (placeTree rnd (data, n) sx sy sz)) = length data"
proof -
  let ?I = "\<lambda>t :: volume \<times> nat. length (fst t) = length data"
  have trunk: "length (fold (trunkWrite sx sy sz) ys data) = length data" for ys
    by (rule fold_invariant [where I = "\<lambda>d. length d = length data"])
       (simp_all add: trunkWrite_length)
  have "?I (fold (leafLayer rnd sx sy sz th) ys (fold (trunkWrite sx sy sz) ys' data, m))"
    for th ys ys' m
    by (rule fold_invariant [where I = ?I]) (simp_all add: leafLayer_length trunk)
  then show ?thesis by (simp add: placeTree_def Let_def)
qed

lemma placeTree_counter: "n \<le> snd (placeTree rnd (data, n) sx sy sz)"
proof -
  let ?I = "\<lambda>t :: volume \<times> nat. n \<le> snd t"
  have "?I (fold (leafLayer rnd sx sy sz th) ys (d, n + 1))" for th ys d
  proof (rule fold_invariant [where I = ?I])
    fix y and u :: "volume \<times> nat"
    assume "n \<le> snd u"
    then show "n \<le> snd (leafLayer rnd sx sy sz th y u)"
      using leafLayer_counter [of u rnd sx sy sz th y] by simp
  qed simp
  then show ?thesis by (simp add: placeTree_def Let_def)
qed

text \<open>
  The cells a call \<open>placeTree(data, tx, ty, tz)\<close> can write to: the trunk, four or
  five blocks in the column \<open>(tx, tz)\<close> from \<open>ty\<close> up, and the four layers of leaves,
  from two blocks below the top of the trunk to one above it, at most two columns away
  in either direction.
\<close>

definition treeReach :: "int \<times> int \<times> int \<Rightarrow> int \<Rightarrow> int \<Rightarrow> int \<Rightarrow> bool" where
  "treeReach c x y z =
     (case c of (tx, ty, tz) \<Rightarrow>
        (x = tx \<and> z = tz \<and> ty \<le> y \<and> y \<le> ty + 4)
        \<or> (\<bar>x - tx\<bar> \<le> 2 \<and> \<bar>z - tz\<bar> \<le> 2 \<and> ty + 2 \<le> y \<and> y \<le> ty + 6))"

lemma placeTree_frame:
  assumes len: "length data = 4096" and c: "in_chunk x y z"
    and r: "0 \<le> sx" "sx < 16" "0 \<le> sz" "sz < 16" "0 \<le> sy"
    and rnd: "0 \<le> rnd n" "rnd n < 1"
    and out: "\<not> treeReach (sx, sy, sz) x y z"
  shows "cell (fst (placeTree rnd (data, n) sx sy sz)) x y z = cell data x y z"
proof -
  define th where "th = \<lfloor>rnd n * 2\<rfloor> + 4"
  have "0 \<le> \<lfloor>rnd n * 2\<rfloor>" using rnd(1) by simp
  moreover have "\<lfloor>rnd n * 2\<rfloor> \<le> 1" using rnd(2) by (simp add: floor_le_iff)
  ultimately have th: "4 \<le> th" "th \<le> 5" by (simp_all add: th_def)
  have o1: "\<not> (x = sx \<and> z = sz \<and> sy \<le> y \<and> y \<le> sy + 4)"
    and o2: "\<not> (\<bar>x - sx\<bar> \<le> 2 \<and> \<bar>z - sz\<bar> \<le> 2 \<and> sy + 2 \<le> y \<and> y \<le> sy + 6)"
    using out by (simp_all add: treeReach_def)
  let ?I = "\<lambda>d :: volume. length d = 4096 \<and> cell d x y z = cell data x y z"
  have trunk: "?I (fold (trunkWrite sx sy sz) [0..th - 1] data)"
  proof (rule fold_invariant [where I = ?I])
    fix i and d :: volume
    assume i: "i \<in> set [0..th - 1]" and d: "?I d"
    have "0 \<le> i" "i \<le> 4" using i th by simp_all
    then have "(sx, sy + i, sz) \<noteq> (x, y, z)" using o1 by auto
    then show "?I (trunkWrite sx sy sz i d)"
      using trunkWrite_frame [of d x y z sx sz sy i] d c r i by simp
  qed (simp add: len)
  let ?J = "\<lambda>t :: volume \<times> nat. length (fst t) = 4096 \<and> cell (fst t) x y z = cell data x y z"
  have "?J (fold (leafLayer rnd sx sy sz th) [sy + th - 2..sy + th + 1]
      (fold (trunkWrite sx sy sz) [0..th - 1] data, n + 1))"
  proof (rule fold_invariant [where I = ?J])
    fix y' and t :: "volume \<times> nat"
    assume y': "y' \<in> set [sy + th - 2..sy + th + 1]" and t: "?J t"
    have "sy + 2 \<le> y'" "y' \<le> sy + 6" using y' th by simp_all
    then have "2 < \<bar>sx - x\<bar> \<or> 2 < \<bar>sz - z\<bar> \<or> y' \<noteq> y" using o2 by auto
    then show "?J (leafLayer rnd sx sy sz th y' t)"
      using leafLayer_frame [of t x y z sx sz y' rnd sy th] t c by simp
  qed (use trunk in simp)
  then show ?thesis by (simp add: placeTree_def Let_def th_def)
qed

text \<open>
  The cell \<open>(x, y, z)\<close> of the volume in the state \<open>p\<close> of the logged pass is the one
  of \<open>d\<close>, if no tree logged so far reaches it.
\<close>

definition untouched ::
  "volume \<Rightarrow> int \<Rightarrow> int \<Rightarrow> int \<Rightarrow> (volume \<times> nat) \<times> (int \<times> int \<times> int) list \<Rightarrow> bool" where
  "untouched d x y z p =
     (length (fst (fst p)) = 4096
      \<and> ((\<forall>c\<in>set (snd p). \<not> treeReach c x y z) \<longrightarrow> cell (fst (fst p)) x y z = cell d x y z))"

lemma treeColumnLog_untouched:
  assumes rnd: "\<forall>i. 0 \<le> rnd i \<and> rnd i < 1" and c: "in_chunk x y z" and I: "untouched d x y z p"
  shows "untouched d x y z (treeColumnLog rnd x0 z0 p)"
proof -
  obtain data n cs where p: "p = ((data, n), cs)" by (metis prod.collapse)
  define h where "h = findSurface data x0 z0"
  have len: "length data = 4096" using I by (simp add: untouched_def p)
  show ?thesis
  proof (cases "\<not> (x0 < 2 \<or> x0 \<ge> chunkSize - 2 \<or> z0 < 2 \<or> z0 \<ge> chunkSize - 2) \<and> h > 0
      \<and> u8_get data (getBlockIndex x0 h z0) = Some GRASS \<and> rnd n < 0.01")
    case True
    then have step: "treeColumnLog rnd x0 z0 p =
        (placeTree rnd (data, n + 1) x0 (h + 1) z0, cs @ [(x0, h + 1, z0)])"
      by (simp add: p treeColumnLog_def Let_def h_def)
    have r: "0 \<le> x0" "x0 < 16" "0 \<le> z0" "z0 < 16" "0 \<le> h + 1"
      using True by (simp_all add: chunkSize_def)
    have l': "length (fst (placeTree rnd (data, n + 1) x0 (h + 1) z0)) = 4096"
      using len by (simp add: placeTree_length)
    have "cell (fst (placeTree rnd (data, n + 1) x0 (h + 1) z0)) x y z = cell d x y z"
      if out: "\<forall>c\<in>set (cs @ [(x0, h + 1, z0)]). \<not> treeReach c x y z"
    proof -
      from out have o1: "\<forall>c\<in>set cs. \<not> treeReach c x y z"
        and o2: "\<not> treeReach (x0, h + 1, z0) x y z" by auto
      from I o1 have "cell data x y z = cell d x y z" by (simp add: untouched_def p)
      moreover have "cell (fst (placeTree rnd (data, n + 1) x0 (h + 1) z0)) x y z = cell data x y z"
        using len c r o2 rnd by (intro placeTree_frame) auto
      ultimately show ?thesis by simp
    qed
    then show ?thesis unfolding step untouched_def using l' by simp
  next
    case False
    then have "treeColumnLog rnd x0 z0 p = p \<or> treeColumnLog rnd x0 z0 p = ((data, n + 1), cs)"
      by (auto simp: p treeColumnLog_def Let_def h_def)
    then show ?thesis using I by (auto simp: untouched_def p)
  qed
qed

lemma treePassLog_untouched:
  assumes "\<forall>i. 0 \<le> rnd i \<and> rnd i < 1" and "in_chunk x y z" and "untouched d x y z p"
  shows "untouched d x y z (treePassLog rnd p)"
proof -
  have row: "untouched d x y z (fold (\<lambda>z0. treeColumnLog rnd x0 z0) zs q)"
    if "untouched d x y z q" for x0 zs q
    by (rule fold_invariant [where I = "untouched d x y z"])
       (use that assms treeColumnLog_untouched in auto)
  show ?thesis
    unfolding treePassLog_def
    by (rule fold_invariant [where I = "untouched d x y z"]) (use row assms in auto)
qed

lemma treePass_frame:
  assumes rnd: "\<forall>i. 0 \<le> rnd i \<and> rnd i < 1" and len: "length d = 4096" and c: "in_chunk x y z"
    and out: "\<forall>c\<in>set (treeCalls rnd (d, n)). \<not> treeReach c x y z"
  shows "cell (fst (treePass rnd (d, n))) x y z = cell d x y z"
proof -
  have "untouched d x y z ((d, n), [])" using len by (simp add: untouched_def)
  then have "untouched d x y z (treePassLog rnd ((d, n), []))"
    using rnd c by (intro treePassLog_untouched)
  then show ?thesis
    using out by (simp add: untouched_def treeCalls_def treePassLog_fst)
qed

text \<open>While every value drawn is at least 0.01 the pass places no tree.\<close>

lemma treeColumnLog_quiet:
  assumes "\<forall>i\<ge>m. 0.01 \<le> rnd i" and "m \<le> snd (fst p)"
  shows "snd (treeColumnLog rnd x z p) = snd p \<and> m \<le> snd (fst (treeColumnLog rnd x z p))"
proof -
  obtain data n cs where p: "p = ((data, n), cs)" by (metis prod.collapse)
  have nn: "0.01 \<le> rnd n" using assms by (simp add: p)
  show ?thesis
    using assms(2) nn unfolding p by (auto simp: treeColumnLog_def Let_def)
qed

lemma treePassLog_quiet:
  assumes q: "\<forall>i\<ge>m. 0.01 \<le> rnd i" and p: "snd p = cs \<and> m \<le> snd (fst p)"
  shows "snd (fold (\<lambda>z. treeColumnLog rnd x z) zs p) = cs
      \<and> m \<le> snd (fst (fold (\<lambda>z. treeColumnLog rnd x z) zs p))"
    and "snd (fold (\<lambda>x. fold (\<lambda>z. treeColumnLog rnd x z) zs) xs p) = cs
      \<and> m \<le> snd (fst (fold (\<lambda>x. fold (\<lambda>z. treeColumnLog rnd x z) zs) xs p))"
proof -
  let ?Q = "\<lambda>t :: (volume \<times> nat) \<times> (int \<times> int \<times> int) list. snd t = cs \<and> m \<le> snd (fst t)"
  have col: "?Q (treeColumnLog rnd x' z' t)" if "?Q t" for x' z' t
    using treeColumnLog_quiet [OF q, of t x' z'] that by simp
  have row: "?Q (fold (\<lambda>z. treeColumnLog rnd x' z) zs' t)" if "?Q t" for x' zs' t
    by (rule fold_invariant [where I = ?Q]) (use col that in auto)
  show "?Q (fold (\<lambda>z. treeColumnLog rnd x z) zs p)" using p by (rule row)
  show "?Q (fold (\<lambda>x. fold (\<lambda>z. treeColumnLog rnd x z) zs) xs p)"
    by (rule fold_invariant [where I = ?Q]) (use row p in auto)
qed

lemma treeCalls_no_tree: "\<forall>i. 0.01 \<le> rnd i \<Longrightarrow> treeCalls rnd (d, n) = []"
  using treePassLog_quiet(2) [of 0 rnd "((d, n), [])" "[]" "[0..chunkSize - 1]" "[0..chunkSize - 1]"]
  by (simp add: treeCalls_def treePassLog_def)

lemma treeColumnLog_edge:
  "x < 2 \<or> 14 \<le> x \<or> z < 2 \<or> 14 \<le> z \<Longrightarrow> treeColumnLog rnd x z p = p"
proof -
  obtain data n cs where p: "p = ((data, n), cs)" by (metis prod.collapse)
  show "x < 2 \<or> 14 \<le> x \<or> z < 2 \<or> 14 \<le> z \<Longrightarrow> treeColumnLog rnd x z p = p"
    unfolding p by (auto simp: treeColumnLog_def chunkSize_def)
qed


subsection \<open>Flat terrain with a tree in the first column that can hold one\<close>

text \<open>Random values that grow a tree in the first column the pass draws for, and only there.\<close>

definition cornerTree :: "nat \<Rightarrow> real" where
  "cornerTree i = (if i = 0 then 0 else 1 / 2)"

lemma corner_calls: "treeCalls cornerTree (flatTerrain, 0) = [(2, 5, 2)]"
proof -
  let ?G = "\<lambda>x z. treeColumnLog cornerTree x z"
  let ?F = "\<lambda>x. fold (?G x) [0..15]"
  let ?Q = "\<lambda>t :: (volume \<times> nat) \<times> (int \<times> int \<times> int) list.
      snd t = [(2, 5, 2)] \<and> 1 \<le> snd (fst t)"
  let ?p0 = "((flatTerrain, 0 :: nat), [] :: (int \<times> int \<times> int) list)"
  define pre :: "int list" where "pre = [0, 1]"
  define post :: "int list" where "post = [3, 4, 5, 6, 7, 8, 9, 10, 11, 12, 13, 14, 15]"
  have split: "[0..15 :: int] = pre @ 2 # post"
    by (simp add: upto_0_15 pre_def post_def)
  have q: "\<forall>i\<ge>1. 0.01 \<le> cornerTree i" by (simp add: cornerTree_def)
  have edge_rows: "fold ?F pre p = p" for p
  proof (rule fold_unchanged)
    fix x and t :: "(volume \<times> nat) \<times> (int \<times> int \<times> int) list"
    assume "x \<in> set pre"
    then have "x < 2" by (auto simp: pre_def)
    then show "?F x t = t" by (intro fold_unchanged treeColumnLog_edge) simp
  qed
  have edge_cols: "fold (?G 2) pre p = p" for p
  proof (rule fold_unchanged)
    fix z and t :: "(volume \<times> nat) \<times> (int \<times> int \<times> int) list"
    assume "z \<in> set pre"
    then have "z < 2" by (auto simp: pre_def)
    then show "?G 2 z t = t" by (intro treeColumnLog_edge) simp
  qed
  have plant: "?G 2 2 ?p0 = (placeTree cornerTree (flatTerrain, 1) 2 5 2, [(2, 5, 2)])"
    using flat_surface [of 2 2]
    by (simp add: treeColumnLog_def Let_def chunkSize_def cornerTree_def)
  have planted: "?Q (?G 2 2 ?p0)"
    unfolding plant using placeTree_counter [of 1 cornerTree flatTerrain 2 5 2] by simp
  have "?F 2 ?p0 = fold (?G 2) post (?G 2 2 ?p0)"
    unfolding split by (simp add: edge_cols)
  then have row2: "?Q (?F 2 ?p0)"
    using treePassLog_quiet(1) [OF q, of "?G 2 2 ?p0" "[(2, 5, 2)]" 2 post] planted by simp
  have all: "fold ?F (pre @ 2 # post) ?p0 = fold ?F post (?F 2 ?p0)"
    by (simp add: edge_rows)
  have "?Q (fold ?F (pre @ 2 # post) ?p0)"
    unfolding all
    using treePassLog_quiet(2) [OF q, of "?F 2 ?p0" "[(2, 5, 2)]" "[0..15]" post] row2 by simp
  then show ?thesis
    by (simp add: treeCalls_def treePassLog_def chunkSize_def split [symmetric])
qed

definition lowNoise :: "real \<Rightarrow> real \<Rightarrow> real" where
  "lowNoise x y = - 1 / 4"

definition hillNoise :: "real \<Rightarrow> real \<Rightarrow> real" where
  "hillNoise x y = 1 / 2"

text \<open>
  Claim C2, amended. For every chunk \<open>(cx, cz)\<close> and local column \<open>(x, z)\<close> the height
  pass computes \<open>height = floor(noise * 8) + 4\<close> clamped to \<open>[1, 15]\<close> and leaves the
  column with bedrock at \<open>y = 0\<close>, grass at \<open>y = height\<close>, dirt at every \<open>y \<ge> 1\<close> with
  \<open>height - 3 \<le> y < height\<close>, stone at every \<open>y\<close> from 1 to \<open>height - 4\<close>, and the empty
  type above \<open>height\<close>. Immediately after generation (both passes, \<open>Math.random()\<close>
  returning values in \<open>[0, 1)\<close>) \<open>getBlock\<close> at local \<open>(8, 0, 8)\<close> of the chunk returns
  bedrock, and every block of the chunk is as the height pass left it unless a tree
  the vegetation pass has placed reaches it: the block is in the tree's own column,
  from the foot of the trunk to four blocks above it, or at most two columns away in
  either direction, from two to six blocks above the foot (\<open>calls\<close> lists the trees
  placed, each by its column and the height of its foot; there is none when every
  value drawn is at least 0.01). So the block at the surface height of column
  \<open>(8, 8)\<close> is grass and the block above it is empty, unless a tree reaches them.
\<close>

theorem terrain_layout:
  "(0 \<le> x \<and> x < 16 \<and> 0 \<le> z \<and> z < 16 \<longrightarrow>
      (let h = columnHeight noise (cx * chunkSize + x) (cz * chunkSize + z);
           d = terrainPass noise cx cz newVolume
       in h = max 1 (min 15 (\<lfloor>noise (real_of_int (cx * chunkSize + x) / 50)
                                 (real_of_int (cz * chunkSize + z) / 50) * 8\<rfloor> + 4))
        \<and> cell d x 0 z = Some BEDROCK
        \<and> cell d x h z = Some GRASS
        \<and> (\<forall>y. 1 \<le> y \<and> h - 3 \<le> y \<and> y < h \<longrightarrow> cell d x y z = Some DIRT)
        \<and> (\<forall>y. 1 \<le> y \<and> y \<le> h - 4 \<longrightarrow> cell d x y z = Some STONE)
        \<and> (\<forall>y. h < y \<and> y < 16 \<longrightarrow> cell d x y z = Some AIR)))
   \<and> ((\<forall>i. 0 \<le> rnd i \<and> rnd i < 1) \<longrightarrow>
       (let w' = fst (generateChunk rnd n w cx cz);
            d = terrainPass (noise2D w) cx cz newVolume;
            calls = treeCalls rnd (d, n);
            h8 = columnHeight (noise2D w) (cx * chunkSize + 8) (cz * chunkSize + 8)
        in getBlock w' (cx * chunkSize + 8) 0 (cz * chunkSize + 8) = Some BEDROCK
         \<and> ((\<forall>i. 0.01 \<le> rnd i) \<longrightarrow> calls = [])
         \<and> (\<forall>lx y lz. 0 \<le> lx \<and> lx < 16 \<and> 0 \<le> y \<and> y < 16 \<and> 0 \<le> lz \<and> lz < 16
               \<and> (\<forall>c\<in>set calls. \<not> treeReach c lx y lz)
              \<longrightarrow> getBlock w' (cx * chunkSize + lx) y (cz * chunkSize + lz) = cell d lx y lz)
         \<and> ((\<forall>c\<in>set calls. \<not> treeReach c 8 h8 8)
              \<longrightarrow> getBlock w' (cx * chunkSize + 8) h8 (cz * chunkSize + 8) = Some GRASS)
         \<and> ((\<forall>c\<in>set calls. \<not> treeReach c 8 (h8 + 1) 8)
              \<longrightarrow> getBlock w' (cx * chunkSize + 8) (h8 + 1) (cz * chunkSize + 8) = Some AIR)))"
proof (intro conjI impI)
  assume r: "0 \<le> x \<and> x < 16 \<and> 0 \<le> z \<and> z < 16"
  define h where "h = columnHeight noise (cx * chunkSize + x) (cz * chunkSize + z)"
  define d where "d = terrainPass noise cx cz newVolume"
  have hr: "1 \<le> h" "h \<le> 15" using columnHeight_range [of noise] by (simp_all add: h_def)
  have c: "cell d x y z = (if y \<le> h then Some (columnType h y) else Some AIR)"
    if "0 \<le> y" "y < 16" for y
    using terrainPass_cells(1) [of x y z noise cx cz] r that
    by (simp add: d_def h_def in_chunk_def chunkSize_def Let_def)
  have "h = max 1 (min 15 (\<lfloor>noise (real_of_int (cx * chunkSize + x) / 50)
                                 (real_of_int (cz * chunkSize + z) / 50) * 8\<rfloor> + 4))"
    unfolding h_def by (rule columnHeight_clamp)
  moreover have "cell d x 0 z = Some BEDROCK" using hr by (simp add: c columnType_def)
  moreover have "cell d x h z = Some GRASS" using hr by (simp add: c columnType_def)
  moreover have "\<forall>y. 1 \<le> y \<and> h - 3 \<le> y \<and> y < h \<longrightarrow> cell d x y z = Some DIRT"
    using hr by (auto simp: c columnType_def)
  moreover have "\<forall>y. 1 \<le> y \<and> y \<le> h - 4 \<longrightarrow> cell d x y z = Some STONE"
    using hr by (auto simp: c columnType_def)
  moreover have "\<forall>y. h < y \<and> y < 16 \<longrightarrow> cell d x y z = Some AIR"
    using hr by (auto simp: c)
  ultimately show "(let h = columnHeight noise (cx * chunkSize + x) (cz * chunkSize + z);
           d = terrainPass noise cx cz newVolume
       in h = max 1 (min 15 (\<lfloor>noise (real_of_int (cx * chunkSize + x) / 50)
                                 (real_of_int (cz * chunkSize + z) / 50) * 8\<rfloor> + 4))
        \<and> cell d x 0 z = Some BEDROCK
        \<and> cell d x h z = Some GRASS
        \<and> (\<forall>y. 1 \<le> y \<and> h - 3 \<le> y \<and> y < h \<longrightarrow> cell d x y z = Some DIRT)
        \<and> (\<forall>y. 1 \<le> y \<and> y \<le> h - 4 \<longrightarrow> cell d x y z = Some STONE)
        \<and> (\<forall>y. h < y \<and> y < 16 \<longrightarrow> cell d x y z = Some AIR))"
    unfolding Let_def h_def d_def by blast
next
  assume rnd: "\<forall>i. 0 \<le> rnd i \<and> rnd i < 1"
  then have rnd0: "\<forall>i. 0 \<le> rnd i" by simp
  define w' where "w' = fst (generateChunk rnd n w cx cz)"
  define h8 where "h8 = columnHeight (noise2D w) (cx * chunkSize + 8) (cz * chunkSize + 8)"
  define d where "d = terrainPass (noise2D w) cx cz newVolume"
  define calls where "calls = treeCalls rnd (d, n)"
  have hr: "1 \<le> h8" "h8 \<le> 15" using columnHeight_range [of "noise2D w"] by (simp_all add: h8_def)
  have c: "cell d x y z = (let h = columnHeight (noise2D w) (cx * chunkSize + x) (cz * chunkSize + z)
      in if y \<le> h then Some (columnType h y) else Some AIR)"
    if "in_chunk x y z" for x y z
    unfolding d_def using that by (rule terrainPass_cells(1))
  have len: "length d = 4096"
    unfolding d_def by (rule terrainPass_cells(2) [of 0 0 0]) (simp add: in_chunk_def chunkSize_def)
  have bed: "getBlock w' (cx * chunkSize + 8) 0 (cz * chunkSize + 8) = Some BEDROCK"
  proof -
    have "bottomIs (\<lambda>x z. Some BEDROCK) d"
      unfolding bottomIs_def
    proof (intro conjI allI impI)
      fix x z :: int
      assume "0 \<le> x \<and> x < 16 \<and> 0 \<le> z \<and> z < 16"
      then have "in_chunk x 0 z" by (simp add: in_chunk_def chunkSize_def)
      then show "cell d x 0 z = Some BEDROCK"
        using columnHeight_range [of "noise2D w" "cx * chunkSize + x" "cz * chunkSize + z"]
        by (simp add: c Let_def columnType_def)
    qed (rule len)
    then have "bottomIs (\<lambda>x z. Some BEDROCK) (fst (treePass rnd (d, n)))"
      using rnd0 by (rule bottomIs_treePass)
    then have "cell (fst (treePass rnd (d, n))) 8 0 8 = Some BEDROCK"
      by (simp add: bottomIs_def)
    then show ?thesis by (simp add: w'_def getBlock_generated d_def)
  qed
  have none: "(\<forall>i. 0.01 \<le> rnd i) \<longrightarrow> calls = []"
    by (simp add: calls_def treeCalls_no_tree)
  have frame: "getBlock w' (cx * chunkSize + lx) y (cz * chunkSize + lz) = cell d lx y lz"
    if lx: "0 \<le> lx" "lx < 16" and y: "0 \<le> y" "y < 16" and lz: "0 \<le> lz" "lz < 16"
      and out: "\<forall>c\<in>set calls. \<not> treeReach c lx y lz"
    for lx y lz
  proof -
    have ic: "in_chunk lx y lz" using lx y lz by (simp add: in_chunk_def chunkSize_def)
    have "cell (fst (treePass rnd (d, n))) lx y lz = cell d lx y lz"
      using rnd len ic out unfolding calls_def by (rule treePass_frame)
    then show ?thesis
      using lx y lz by (simp add: w'_def getBlock_generated d_def)
  qed
  have grass: "getBlock w' (cx * chunkSize + 8) h8 (cz * chunkSize + 8) = Some GRASS"
    if out: "\<forall>c\<in>set calls. \<not> treeReach c 8 h8 8"
  proof -
    have "cell d 8 h8 8 = Some GRASS"
      using hr c [of 8 h8 8] by (simp add: in_chunk_def chunkSize_def h8_def Let_def columnType_def)
    then show ?thesis using frame [of 8 h8 8] hr out by simp
  qed
  have air: "getBlock w' (cx * chunkSize + 8) (h8 + 1) (cz * chunkSize + 8) = Some AIR"
    if out: "\<forall>c\<in>set calls. \<not> treeReach c 8 (h8 + 1) 8"
  proof (cases "h8 + 1 < 16")
    case True
    then have "cell d 8 (h8 + 1) 8 = Some AIR"
      using hr c [of 8 "h8 + 1" 8] by (simp add: in_chunk_def chunkSize_def h8_def Let_def)
    then show ?thesis using frame [of 8 "h8 + 1" 8] hr out True by simp
  next
    case False
    then show ?thesis by (simp add: w'_def getBlock_generated AIR_def)
  qed
  show "(let w' = fst (generateChunk rnd n w cx cz);
            d = terrainPass (noise2D w) cx cz newVolume;
            calls = treeCalls rnd (d, n);
            h8 = columnHeight (noise2D w) (cx * chunkSize + 8) (cz * chunkSize + 8)
        in getBlock w' (cx * chunkSize + 8) 0 (cz * chunkSize + 8) = Some BEDROCK
         \<and> ((\<forall>i. 0.01 \<le> rnd i) \<longrightarrow> calls = [])
         \<and> (\<forall>lx y lz. 0 \<le> lx \<and> lx < 16 \<and> 0 \<le> y \<and> y < 16 \<and> 0 \<le> lz \<and> lz < 16
               \<and> (\<forall>c\<in>set calls. \<not> treeReach c lx y lz)
              \<longrightarrow> getBlock w' (cx * chunkSize + lx) y (cz * chunkSize + lz) = cell d lx y lz)
         \<and> ((\<forall>c\<in>set calls. \<not> treeReach c 8 h8 8)
              \<longrightarrow> getBlock w' (cx * chunkSize + 8) h8 (cz * chunkSize + 8) = Some GRASS)
         \<and> ((\<forall>c\<in>set calls. \<not> treeReach c 8 (h8 + 1) 8)
              \<longrightarrow> getBlock w' (cx * chunkSize + 8) (h8 + 1) (cz * chunkSize + 8) = Some AIR))"
    unfolding Let_def w'_def [symmetric] d_def [symmetric] calls_def [symmetric] h8_def [symmetric]
    using bed none frame grass air by blast
qed

lemma hill_height: "columnHeight hillNoise wx wz = 8"
  by (simp add: columnHeight_def hillNoise_def Let_def OFFSET_def chunkSize_def TERRAIN_HEIGHT_def)

lemma low_height: "columnHeight lowNoise wx wz = 2"
  by (simp add: columnHeight_def lowNoise_def Let_def OFFSET_def chunkSize_def TERRAIN_HEIGHT_def)

definition hillWorld :: world where
  "hillWorld = newWorld (\<lambda>f. hillNoise) [] 0"

definition flatWorld :: world where
  "flatWorld = newWorld (\<lambda>f. flatNoise) [] 0"

text \<open>
  On a hill of height 8 without trees the column \<open>(8, 8)\<close> is as the height pass left
  it. On flat terrain of height 4 with one tree, in column \<open>(2, 2)\<close> with its foot at
  height 5, column \<open>(8, 8)\<close> has grass at 4 and nothing above, the block under the
  tree is still grass, and the block above the surface of the next column \<open>(3, 3)\<close> is
  empty (the leaves start two blocks higher).
\<close>

theorem terrain_layout_witness:
  "cell (terrainPass hillNoise 0 0 newVolume) 8 0 8 = Some BEDROCK
   \<and> cell (terrainPass hillNoise 0 0 newVolume) 8 8 8 = Some GRASS
   \<and> cell (terrainPass hillNoise 0 0 newVolume) 8 6 8 = Some DIRT
   \<and> cell (terrainPass hillNoise 0 0 newVolume) 8 2 8 = Some STONE
   \<and> cell (terrainPass hillNoise 0 0 newVolume) 8 9 8 = Some AIR
   \<and> treeCalls (\<lambda>i. 1 / 2) (terrainPass (noise2D hillWorld) 0 0 newVolume, 0) = []
   \<and> getBlock (fst (generateChunk (\<lambda>i. 1 / 2) 0 hillWorld 0 0)) 8 0 8 = Some BEDROCK
   \<and> getBlock (fst (generateChunk (\<lambda>i. 1 / 2) 0 hillWorld 0 0)) 8 8 8 = Some GRASS
   \<and> getBlock (fst (generateChunk (\<lambda>i. 1 / 2) 0 hillWorld 0 0)) 8 9 8 = Some AIR
   \<and> treeCalls cornerTree (terrainPass (noise2D flatWorld) 0 0 newVolume, 0) = [(2, 5, 2)]
   \<and> getBlock (fst (generateChunk cornerTree 0 flatWorld 0 0)) 8 0 8 = Some BEDROCK
   \<and> getBlock (fst (generateChunk cornerTree 0 flatWorld 0 0)) 8 4 8 = Some GRASS
   \<and> getBlock (fst (generateChunk cornerTree 0 flatWorld 0 0)) 8 5 8 = Some AIR
   \<and> getBlock (fst (generateChunk cornerTree 0 flatWorld 0 0)) 2 4 2 = Some GRASS
   \<and> getBlock (fst (generateChunk cornerTree 0 flatWorld 0 0)) 3 5 3 = Some AIR"
proof -
  have n: "noise2D hillWorld = hillNoise"
    by (simp add: hillWorld_def newWorld_def createNoiseGenerator_def Let_def)
  have nf: "noise2D flatWorld = flatNoise"
    by (simp add: flatWorld_def newWorld_def createNoiseGenerator_def Let_def)
  have calls: "treeCalls cornerTree (terrainPass (noise2D flatWorld) 0 0 newVolume, 0) = [(2, 5, 2)]"
    using corner_calls by (simp add: nf flatTerrain_def)
  have half: "\<forall>i. 0 \<le> (\<lambda>i :: nat. 1 / 2 :: real) i \<and> (\<lambda>i :: nat. 1 / 2 :: real) i < 1" by simp
  have corner: "\<forall>i. 0 \<le> cornerTree i \<and> cornerTree i < 1" by (simp add: cornerTree_def)
  have hill: "cell (terrainPass hillNoise 0 0 newVolume) 8 0 8 = Some BEDROCK
     \<and> cell (terrainPass hillNoise 0 0 newVolume) 8 8 8 = Some GRASS
     \<and> cell (terrainPass hillNoise 0 0 newVolume) 8 6 8 = Some DIRT
     \<and> cell (terrainPass hillNoise 0 0 newVolume) 8 2 8 = Some STONE
     \<and> cell (terrainPass hillNoise 0 0 newVolume) 8 9 8 = Some AIR"
    using terrain_layout [where x = 8 and z = 8 and noise = hillNoise and cx = 0 and cz = 0,
        THEN conjunct1]
    by (simp add: Let_def hill_height chunkSize_def)
  note a = terrain_layout [where rnd = "\<lambda>i. 1 / 2" and n = 0 and w = hillWorld and cx = 0
      and cz = 0, THEN conjunct2, THEN mp, OF half, unfolded Let_def]
  have a0: "treeCalls (\<lambda>i. 1 / 2) (terrainPass (noise2D hillWorld) 0 0 newVolume, 0) = []"
    using a [THEN conjunct2, THEN conjunct1] by simp
  have a0h: "treeCalls (\<lambda>i. 1 / 2) (terrainPass hillNoise 0 0 newVolume, 0) = []"
    using a0 by (simp add: n)
  have a1: "getBlock (fst (generateChunk (\<lambda>i. 1 / 2) 0 hillWorld 0 0)) 8 0 8 = Some BEDROCK"
    using a [THEN conjunct1] by (simp add: chunkSize_def)
  have a2: "getBlock (fst (generateChunk (\<lambda>i. 1 / 2) 0 hillWorld 0 0)) 8 8 8 = Some GRASS"
    using a [THEN conjunct2, THEN conjunct2, THEN conjunct2, THEN conjunct1]
    by (simp add: a0h n hill_height chunkSize_def)
  have a3: "getBlock (fst (generateChunk (\<lambda>i. 1 / 2) 0 hillWorld 0 0)) 8 9 8 = Some AIR"
    using a [THEN conjunct2, THEN conjunct2, THEN conjunct2, THEN conjunct2]
    by (simp add: a0h n hill_height chunkSize_def)
  note b = terrain_layout [where rnd = cornerTree and n = 0 and w = flatWorld and cx = 0
      and cz = 0, THEN conjunct2, THEN mp, OF corner, unfolded Let_def calls]
  have b1: "getBlock (fst (generateChunk cornerTree 0 flatWorld 0 0)) 8 0 8 = Some BEDROCK"
    using b [THEN conjunct1] by (simp add: chunkSize_def)
  have b2: "getBlock (fst (generateChunk cornerTree 0 flatWorld 0 0)) 8 4 8 = Some GRASS"
    using b [THEN conjunct2, THEN conjunct2, THEN conjunct2, THEN conjunct1]
    by (simp add: nf flat_height chunkSize_def treeReach_def)
  have b3: "getBlock (fst (generateChunk cornerTree 0 flatWorld 0 0)) 8 5 8 = Some AIR"
    using b [THEN conjunct2, THEN conjunct2, THEN conjunct2, THEN conjunct2]
    by (simp add: nf flat_height chunkSize_def treeReach_def)
  have fc: "cell (terrainPass (noise2D flatWorld) 0 0 newVolume) lx y lz =
      (if y \<le> 4 then Some (columnType 4 y) else Some AIR)" if "in_chunk lx y lz" for lx y lz
    using flat_cell [OF that] by (simp add: nf flatTerrain_def cell_def)
  have "getBlock (fst (generateChunk cornerTree 0 flatWorld 0 0)) (0 * chunkSize + 2) 4 (0 * chunkSize + 2)
      = cell (terrainPass (noise2D flatWorld) 0 0 newVolume) 2 4 2"
    using b [THEN conjunct2, THEN conjunct2, THEN conjunct1, rule_format, of 2 4 2]
    by (simp add: treeReach_def)
  then have b4: "getBlock (fst (generateChunk cornerTree 0 flatWorld 0 0)) 2 4 2 = Some GRASS"
    by (simp add: fc in_chunk_def chunkSize_def columnType_def)
  have "getBlock (fst (generateChunk cornerTree 0 flatWorld 0 0)) (0 * chunkSize + 3) 5 (0 * chunkSize + 3)
      = cell (terrainPass (noise2D flatWorld) 0 0 newVolume) 3 5 3"
    using b [THEN conjunct2, THEN conjunct2, THEN conjunct1, rule_format, of 3 5 3]
    by (simp add: treeReach_def)
  then have b5: "getBlock (fst (generateChunk cornerTree 0 flatWorld 0 0)) 3 5 3 = Some AIR"
    by (simp add: fc in_chunk_def chunkSize_def)
  show ?thesis using hill a0 a1 a2 a3 calls b1 b2 b3 b4 b5 by blast
qed

text \<open>
  The claim as stated fails in two places. With noise \<open>-1/4\<close> the height is 2, so
  \<open>y = 0\<close> lies in \<open>height - 3 \<le> y < height\<close> and holds bedrock, not dirt. And after
  generation the block above the surface of column \<open>(8, 8)\<close> is not empty when the
  vegetation pass grows a tree there: on flat terrain of height 4, with the 79th value
  of \<open>Math.random()\<close> below 0.01 and the others 0.5, it is the foot of a trunk.
\<close>

theorem terrain_layout_counterexample:
  "columnHeight lowNoise 8 8 - 3 \<le> 0 \<and> 0 < columnHeight lowNoise 8 8
   \<and> cell (terrainPass lowNoise 0 0 newVolume) 8 0 8 = Some BEDROCK
   \<and> BEDROCK \<noteq> DIRT
   \<and> columnHeight (noise2D flatWorld) 8 8 = 4
   \<and> getBlock (fst (generateChunk oneTree 0 flatWorld 0 0)) 8 (4 + 1) 8 = Some WOOD
   \<and> WOOD \<noteq> AIR"
proof -
  have n: "noise2D flatWorld = flatNoise"
    by (simp add: flatWorld_def newWorld_def createNoiseGenerator_def Let_def)
  have a: "cell (terrainPass lowNoise 0 0 newVolume) 8 0 8 = Some BEDROCK"
    using terrainPass_cells(1) [of 8 0 8 lowNoise 0 0]
    by (simp add: in_chunk_def chunkSize_def low_height columnType_def)
  have "getBlock (fst (generateChunk oneTree 0 flatWorld 0 0)) (0 * chunkSize + 8) 5 (0 * chunkSize + 8) =
      cell (fst (treePass oneTree (terrainPass (noise2D flatWorld) 0 0 newVolume, 0))) 8 5 8"
    by (subst getBlock_generated) simp_all
  then have b: "getBlock (fst (generateChunk oneTree 0 flatWorld 0 0)) 8 5 8 = Some WOOD"
    using oneTree_trunk by (simp add: n flatTerrain_def cell_def)
  show ?thesis
    using a b by (simp add: low_height n flat_height BLOCK_defs)
qed

section \<open>Determinism of the noise and of the height pass\<close>

text \<open>The noise function of a world is the one its seed gives.\<close>

definition seeded :: "noiselib \<Rightarrow> world \<Rightarrow> bool" where
  "seeded lib w = (noise2D w = createNoiseGenerator lib (seed w))"

lemma setBlock_seed:
  "seed (setBlock w x y z t) = seed w" "noise2D (setBlock w x y z t) = noise2D w"
  by (auto simp: setBlock_def Let_def disposeMesh_def split: option.splits)

lemma generateChunk_seed:
  "seed (fst (generateChunk rnd n w cx cz)) = seed w"
  "noise2D (fst (generateChunk rnd n w cx cz)) = noise2D w"
  by (simp_all add: generateChunk_def Let_def split: prod.splits)

lemma evictOne_seed:
  "seed (fst (evictOne e s)) = seed (fst s)" "noise2D (fst (evictOne e s)) = noise2D (fst s)"
  by (cases e; cases s; simp add: evictOne_eq)+

lemma checkMemory_seed:
  "seed (fst (checkMemory w p)) = seed w \<and> noise2D (fst (checkMemory w p)) = noise2D w"
proof -
  have "seed (fst (fold evictOne es s)) = seed w \<and> noise2D (fst (fold evictOne es s)) = noise2D w"
    if "seed (fst s) = seed w \<and> noise2D (fst s) = noise2D w" for es s
    by (rule fold_invariant [where I = "\<lambda>s. seed (fst s) = seed w \<and> noise2D (fst s) = noise2D w"])
       (use that in \<open>auto simp: evictOne_seed\<close>)
  then show ?thesis by (simp add: checkMemory_def Let_def)
qed

lemma deleteWorld_finish_seed:
  "seed (deleteWorld_finish lib w r) = \<lfloor>r * 2147483647\<rfloor>"
  "noise2D (deleteWorld_finish lib w r) = createNoiseGenerator lib \<lfloor>r * 2147483647\<rfloor>"
  by (simp_all add: deleteWorld_finish_def Let_def)

lemma reachable_seeded: "reachable lib w \<Longrightarrow> seeded lib w"
proof (induction rule: reachable.induct)
  case (r_new sc r)
  then show ?case by (simp add: seeded_def newWorld_def Let_def)
next
  case (r_load w d avail)
  then show ?case by (auto simp: seeded_def loadWorld_def Let_def split: option.splits)
next
  case (r_save_chunks w)
  then show ?case by (simp add: seeded_def saveWorld_chunks_eq)
next
  case (r_save_clear w)
  then show ?case by (simp add: seeded_def saveWorld_clear_def)
next
  case (r_delete w r)
  then show ?case by (simp add: seeded_def deleteWorld_finish_seed)
next
  case (r_setBlock w x y z t)
  then show ?case by (simp add: seeded_def setBlock_seed)
next
  case (r_generate w rnd n cx cz)
  then show ?case by (simp add: seeded_def generateChunk_seed)
next
  case (r_ensure w rnd n cx cz k)
  then show ?case
    using generateChunk_seed [of rnd n w cx cz]
    by (auto simp: seeded_def ensureChunk_def split: option.splits prod.splits)
next
  case (r_ensure_then w rnd n cx cz k fetched)
  then show ?case
    using generateChunk_seed [of rnd n w cx cz]
    by (cases fetched) (auto simp: seeded_def ensureChunk_then_def Let_def split: prod.splits)
next
  case (r_ensure_rejected w k)
  then show ?case by (simp add: seeded_def ensureChunk_rejected_def)
next
  case (r_unload w e)
  then show ?case by (cases e) (simp add: seeded_def unloadVisual_def)
next
  case (r_evict w p)
  then show ?case by (simp add: seeded_def checkMemory_seed)
next
  case (r_evict_written w k)
  then show ?case by (simp add: seeded_def checkMemory_written_def)
qed

text \<open>
  Claim C9. In every reachable state of a World the noise function is the one the
  generator makes from the seed, so a noise sample is a function of \<open>(seed, x, y)\<close>:
  two worlds with the same seed, whatever their histories and whatever
  \<open>Math.random()\<close> returned in each process, give the same noise value at the same
  coordinates; the height pass of \<open>generateChunk(cx, cz)\<close> gives the same volume, byte
  for byte, in both; and the volume that \<open>generateChunk\<close> stores is the vegetation
  pass (the only part that reads \<open>Math.random()\<close>) run on that volume.
\<close>

theorem noise_deterministic:
  "reachable lib w1 \<and> reachable lib w2 \<and> seed w1 = seed w2 \<longrightarrow>
     noise2D w1 x y = createNoiseGenerator lib (seed w1) x y
   \<and> noise2D w1 x y = noise2D w2 x y
   \<and> terrainPass (noise2D w1) cx cz newVolume = terrainPass (noise2D w2) cx cz newVolume
   \<and> (\<forall>lx lz. columnHeight (noise2D w1) (cx * chunkSize + lx) (cz * chunkSize + lz) =
                columnHeight (noise2D w2) (cx * chunkSize + lx) (cz * chunkSize + lz))
   \<and> map_of (chunksData (fst (generateChunk rnd1 n1 w1 cx cz))) (chunkKey cx cz) =
       Some (fst (treePass rnd1 (terrainPass (createNoiseGenerator lib (seed w1)) cx cz newVolume, n1)))
   \<and> map_of (chunksData (fst (generateChunk rnd2 n2 w2 cx cz))) (chunkKey cx cz) =
       Some (fst (treePass rnd2 (terrainPass (createNoiseGenerator lib (seed w1)) cx cz newVolume, n2)))"
proof (intro impI)
  assume h: "reachable lib w1 \<and> reachable lib w2 \<and> seed w1 = seed w2"
  then have s1: "noise2D w1 = createNoiseGenerator lib (seed w1)"
    using reachable_seeded [of lib w1] by (simp add: seeded_def)
  from h have s2: "noise2D w2 = createNoiseGenerator lib (seed w1)"
    using reachable_seeded [of lib w2] by (simp add: seeded_def)
  show "noise2D w1 x y = createNoiseGenerator lib (seed w1) x y
   \<and> noise2D w1 x y = noise2D w2 x y
   \<and> terrainPass (noise2D w1) cx cz newVolume = terrainPass (noise2D w2) cx cz newVolume
   \<and> (\<forall>lx lz. columnHeight (noise2D w1) (cx * chunkSize + lx) (cz * chunkSize + lz) =
                columnHeight (noise2D w2) (cx * chunkSize + lx) (cz * chunkSize + lz))
   \<and> map_of (chunksData (fst (generateChunk rnd1 n1 w1 cx cz))) (chunkKey cx cz) =
       Some (fst (treePass rnd1 (terrainPass (createNoiseGenerator lib (seed w1)) cx cz newVolume, n1)))
   \<and> map_of (chunksData (fst (generateChunk rnd2 n2 w2 cx cz))) (chunkKey cx cz) =
       Some (fst (treePass rnd2 (terrainPass (createNoiseGenerator lib (seed w1)) cx cz newVolume, n2)))"
    by (simp add: generateChunk_data update_conv' s1 s2)
qed

text \<open>
  Two processes: one constructs a World whose seed comes out as 7; the other
  constructs a World with another seed and loads a store whose player record holds
  seed 7.
\<close>

definition firstValueNoise :: noiselib where
  "firstValueNoise f x y = f 0 * 2 - 1"

definition seed7Db :: db where
  "seed7Db = \<lparr>chunkStore = [],
     playerStore = Some \<lparr>meta_position = (0, 0, 0), meta_inventory = [], meta_seed = Some 7\<rparr>\<rparr>"

definition processA :: world where
  "processA = newWorld firstValueNoise [] (7 / 2147483647)"

definition processB :: world where
  "processB = snd (loadWorld firstValueNoise (newWorld firstValueNoise [] (1 / 2)) seed7Db True)"

theorem noise_deterministic_witness:
  "seed processA = 7 \<and> seed processB = 7
   \<and> noise2D processA (1 / 50) (2 / 50) = noise2D processB (1 / 50) (2 / 50)
   \<and> terrainPass (noise2D processA) 0 0 newVolume = terrainPass (noise2D processB) 0 0 newVolume"
proof -
  have a: "reachable firstValueNoise processA" unfolding processA_def by (rule r_new)
  have b: "reachable firstValueNoise processB"
    unfolding processB_def by (intro r_load r_new)
  have sa: "seed processA = 7" by (simp add: processA_def newWorld_def Let_def)
  have sb: "seed processB = 7"
    by (simp add: processB_def loadWorld_def Let_def seed7Db_def db_get_meta_def)
  show ?thesis
    using noise_deterministic [of firstValueNoise processA processB "1 / 50" "2 / 50" 0 0
        "\<lambda>i. 0" 0 "\<lambda>i. 1 / 2" 0] a b sa sb
    by simp
qed

end
